theory Spec2Isabelle
  imports Main
begin

section \<open>Values exchanged with the remote service\<close>

text \<open>
  The client of \<^verbatim>\<open>odoo_sdk.py\<close> sends and receives decoded JSON. A decoded value is one of
  Python's \<^verbatim>\<open>None\<close>, \<^verbatim>\<open>bool\<close>, \<^verbatim>\<open>int\<close>, \<^verbatim>\<open>str\<close>, \<^verbatim>\<open>list\<close> and \<^verbatim>\<open>dict\<close>; a \<^verbatim>\<open>dict\<close> is an
  association list in insertion order (a Python \<^verbatim>\<open>dict\<close> has distinct keys, and a lookup
  takes the entry of the key). Numbers with a fraction or an exponent (Python \<^verbatim>\<open>float\<close>)
  are outside the model.
\<close>

datatype json =
    JNull
  | JBool bool
  | JInt int
  | JStr string
  | JList "json list"
  | JObj "(string \<times> json) list"

text \<open>The exceptions that the client raises or lets through.\<close>

datatype error =
    ConnectionError
  | HTTPError nat
  | RequestException
  | JSONDecodeError
  | RPCError json
  | AuthenticationError json
  | TypeError
  | ValueError
  | KeyError
  | AttributeError
  | StopIteration
  | RuntimeError

text \<open>
  What one call of \<^verbatim>\<open>Session.post\<close> can do: fail to connect (\<^verbatim>\<open>requests.ConnectionError\<close>),
  fail with another exception of \<^verbatim>\<open>requests\<close> that \<^verbatim>\<open>_post\<close> does not catch (a read
  timeout, too many redirects), or deliver a response with a status code and a body; the
  body is \<open>None\<close> when it is not JSON, so that \<^verbatim>\<open>Response.json()\<close> raises.
\<close>

datatype outcome =
    Refused
  | Aborted
  | Response nat "json option"

text \<open>
  The environment of a client: \<open>wire E i\<close> is the outcome of the \<open>i\<close>-th POST attempt of the
  client's life, \<open>entropy E k\<close> feeds the \<open>k\<close>-th call of \<^verbatim>\<open>random.randint\<close>, and \<open>lower\<close>,
  \<open>int_of_str\<close> stand for Python's \<^verbatim>\<open>str.lower\<close> and for \<^verbatim>\<open>int\<close> applied to a string
  (\<open>None\<close> where it raises \<^verbatim>\<open>ValueError\<close>).
\<close>

record env =
  wire :: "nat \<Rightarrow> outcome"
  entropy :: "nat \<Rightarrow> nat"
  lower :: "string \<Rightarrow> string"
  int_of_str :: "string \<Rightarrow> int option"

text \<open>The observable effects of the client, in the order in which they happen.\<close>

datatype level = DEBUG | INFO | WARNING | ERROR

datatype message =
    Rpc_out json
  | Transient error nat
  | Rpc_error json
  | Authenticated json
  | State_label_not_found string

datatype event =
    Posted json
  | Slept nat
  | Logged level message

text \<open>
  The instance attributes of \<^verbatim>\<open>OdooClient\<close>. \<open>uid\<close> is \<open>JNull\<close> for Python's \<^verbatim>\<open>None\<close>.
  \<open>sess_open\<close> is the state of the connection pool \<^verbatim>\<open>_sess\<close>; \<open>nposts\<close> and \<open>nrand\<close> count the
  POST attempts and the random draws made so far, and \<open>trace\<close> records the effects.
\<close>

record client =
  url :: string
  db :: string
  username :: string
  api_key :: string
  timeout :: int
  verify_ssl :: bool
  sess_open :: bool
  uid :: json
  nposts :: nat
  nrand :: nat
  trace :: "event list"

definition emit :: "event list \<Rightarrow> client \<Rightarrow> client" where
  "emit evs c = c\<lparr>trace := trace c @ evs\<rparr>"

section \<open>Transport: \<^verbatim>\<open>_post\<close>\<close>

definition range3 :: "nat list" where
  "range3 = [0, 1, 2]"

text \<open>The \<^verbatim>\<open>except\<close> branch that does not re-raise: compute the wait, warn, sleep.\<close>

definition backoff :: "error \<Rightarrow> nat \<Rightarrow> client \<Rightarrow> client" where
  "backoff exc attempt c =
     (let wait = 2 ^ attempt
      in emit [Logged WARNING (Transient exc wait), Slept wait] c)"

text \<open>One POST attempt: the request goes out and the wire answers.\<close>

definition sess_post :: "env \<Rightarrow> json \<Rightarrow> client \<Rightarrow> outcome \<times> client" where
  "sess_post E payload c =
     (wire E (nposts c), emit [Posted payload] (c\<lparr>nposts := Suc (nposts c)\<rparr>))"

text \<open>
  The loop \<^verbatim>\<open>for attempt in range(3)\<close> as a recursion over the attempts left.
  \<^verbatim>\<open>raise_for_status\<close> raises \<^verbatim>\<open>HTTPError\<close> for a status from 400 to 599.
\<close>

fun post_loop :: "env \<Rightarrow> json \<Rightarrow> nat list \<Rightarrow> client \<Rightarrow> (error + json option) \<times> client" where
  "post_loop E payload [] c = (Inl RuntimeError, c)"
| "post_loop E payload (attempt # rest) c =
     (case sess_post E payload c of
        (Response status body, c1) \<Rightarrow>
          if 400 \<le> status \<and> status < 600 then
            (if attempt = 2 \<or> status < 500 then (Inl (HTTPError status), c1)
             else post_loop E payload rest (backoff (HTTPError status) attempt c1))
          else (Inr body, c1)
      | (Refused, c1) \<Rightarrow>
          if attempt = 2 then (Inl ConnectionError, c1)
          else post_loop E payload rest (backoff ConnectionError attempt c1)
      | (Aborted, c1) \<Rightarrow> (Inl RequestException, c1))"

definition post :: "env \<Rightarrow> json \<Rightarrow> client \<Rightarrow> (error + json option) \<times> client" where
  "post E payload c = post_loop E payload range3 c"

text \<open>Vocabulary for the retry policy.\<close>

fun retryable :: "outcome \<Rightarrow> bool" where
  "retryable Refused = True"
| "retryable Aborted = False"
| "retryable (Response status body) = (500 \<le> status \<and> status < 600)"

fun raised :: "outcome \<Rightarrow> error" where
  "raised Refused = ConnectionError"
| "raised Aborted = RequestException"
| "raised (Response status body) = HTTPError status"

fun verdict :: "outcome \<Rightarrow> error + json option" where
  "verdict (Response status body) =
     (if 400 \<le> status \<and> status < 600 then Inl (HTTPError status) else Inr body)"
| "verdict out = Inl (raised out)"

definition attempts :: "event list \<Rightarrow> json list" where
  "attempts evs = concat (map (\<lambda>e. case e of Posted p \<Rightarrow> [p] | _ \<Rightarrow> []) evs)"

definition after :: "nat \<Rightarrow> event list \<Rightarrow> client \<Rightarrow> client" where
  "after k evs c = c\<lparr>nposts := nposts c + k, trace := trace c @ evs\<rparr>"

text \<open>
  The response that decides \<^verbatim>\<open>_post\<close> when its first attempt is the \<open>n\<close>-th of the wire:
  the first outcome that is not retried, or the third one.
\<close>

definition delivered :: "env \<Rightarrow> nat \<Rightarrow> outcome" where
  "delivered E n =
     (if \<not> retryable (wire E n) then wire E n
      else if \<not> retryable (wire E (n + 1)) then wire E (n + 1)
      else wire E (n + 2))"

section \<open>Python built-ins on decoded values\<close>

text \<open>Truth value testing (\<^verbatim>\<open>bool(x)\<close>, \<^verbatim>\<open>x or y\<close>, \<^verbatim>\<open>if x\<close>).\<close>

fun truthy :: "json \<Rightarrow> bool" where
  "truthy JNull = False"
| "truthy (JBool b) = b"
| "truthy (JInt i) = (i \<noteq> 0)"
| "truthy (JStr s) = (s \<noteq> [])"
| "truthy (JList xs) = (xs \<noteq> [])"
| "truthy (JObj kvs) = (kvs \<noteq> [])"

text \<open>\<^verbatim>\<open>isinstance(x, int)\<close>: \<^verbatim>\<open>bool\<close> is a subclass of \<^verbatim>\<open>int\<close> in Python.\<close>

fun isinstance_int :: "json \<Rightarrow> bool" where
  "isinstance_int (JInt i) = True"
| "isinstance_int (JBool b) = True"
| "isinstance_int _ = False"

text \<open>
  Iteration, as \<^verbatim>\<open>list(x)\<close> does it: a list gives its elements, a dict its keys, a string
  its characters; anything else is not iterable.
\<close>

fun py_list :: "json \<Rightarrow> error + json list" where
  "py_list (JList xs) = Inr xs"
| "py_list (JObj kvs) = Inr (map (\<lambda>kv. JStr (fst kv)) kvs)"
| "py_list (JStr s) = Inr (map (\<lambda>ch. JStr [ch]) s)"
| "py_list _ = Inl TypeError"

fun py_int :: "env \<Rightarrow> json \<Rightarrow> error + int" where
  "py_int E (JInt i) = Inr i"
| "py_int E (JBool b) = Inr (if b then 1 else 0)"
| "py_int E (JStr s) = (case int_of_str E s of None \<Rightarrow> Inl ValueError | Some i \<Rightarrow> Inr i)"
| "py_int E _ = Inl TypeError"

text \<open>\<^verbatim>\<open>x[k]\<close> with a string key.\<close>

fun subscript :: "json \<Rightarrow> string \<Rightarrow> error + json" where
  "subscript (JObj kvs) k = (case map_of kvs k of None \<Rightarrow> Inl KeyError | Some v \<Rightarrow> Inr v)"
| "subscript _ k = Inl TypeError"

text \<open>\<^verbatim>\<open>d[k] = v\<close> on a dict with string keys: an existing key keeps its place.\<close>

fun obj_set :: "string \<Rightarrow> json \<Rightarrow> (string \<times> json) list \<Rightarrow> (string \<times> json) list" where
  "obj_set k v [] = [(k, v)]"
| "obj_set k v (kv # d) = (if fst kv = k then (fst kv, v) # d else kv # obj_set k v d)"

text \<open>
  \<^verbatim>\<open>dict(x)\<close>. The keys of the result are arbitrary hashable values, compared with Python's
  \<^verbatim>\<open>==\<close> (\<^verbatim>\<open>True == 1\<close>). Each element of a sequence \<open>x\<close> is itself iterated and must have
  two elements.
\<close>

fun hashable :: "json \<Rightarrow> bool" where
  "hashable (JList xs) = False"
| "hashable (JObj kvs) = False"
| "hashable _ = True"

fun key_eq :: "json \<Rightarrow> json \<Rightarrow> bool" where
  "key_eq (JBool b) (JInt i) = (i = (if b then 1 else 0))"
| "key_eq (JInt i) (JBool b) = (i = (if b then 1 else 0))"
| "key_eq a b = (a = b)"

fun dict_set :: "json \<Rightarrow> json \<Rightarrow> (json \<times> json) list \<Rightarrow> (json \<times> json) list" where
  "dict_set k v [] = [(k, v)]"
| "dict_set k v (kv # d) = (if key_eq (fst kv) k then (fst kv, v) # d else kv # dict_set k v d)"

fun dict_update_seq :: "json list \<Rightarrow> (json \<times> json) list \<Rightarrow> error + (json \<times> json) list" where
  "dict_update_seq [] d = Inr d"
| "dict_update_seq (item # items) d =
     (case py_list item of
        Inl exc \<Rightarrow> Inl TypeError
      | Inr kv \<Rightarrow>
          if length kv \<noteq> 2 then Inl ValueError
          else if \<not> hashable (kv ! 0) then Inl TypeError
          else dict_update_seq items (dict_set (kv ! 0) (kv ! 1) d))"

definition py_dict :: "json \<Rightarrow> error + (json \<times> json) list" where
  "py_dict x =
     (case x of
        JObj kvs \<Rightarrow> Inr (map (\<lambda>kv. (JStr (fst kv), snd kv)) kvs)
      | _ \<Rightarrow> (case py_list x of Inl exc \<Rightarrow> Inl exc | Inr items \<Rightarrow> dict_update_seq items []))"

text \<open>\<^verbatim>\<open>sub in s\<close> on strings.\<close>

fun is_infix :: "string \<Rightarrow> string \<Rightarrow> bool" where
  "is_infix sub [] = (sub = [])"
| "is_infix sub (ch # s) = (take (length sub) (ch # s) = sub \<or> is_infix sub s)"

section \<open>Envelope: \<^verbatim>\<open>_json_rpc\<close>\<close>

abbreviation COMMON :: string where "COMMON \<equiv> ''common''"
abbreviation OBJECT :: string where "OBJECT \<equiv> ''object''"
abbreviation PROJECT_MODEL :: string where "PROJECT_MODEL \<equiv> ''project.project''"
abbreviation TASK_MODEL :: string where "TASK_MODEL \<equiv> ''project.task''"
abbreviation STAGE_MODEL :: string where "STAGE_MODEL \<equiv> ''project.task.type''"

text \<open>\<^verbatim>\<open>random.randint(a, b)\<close>: some integer from \<open>a\<close> to \<open>b\<close>, both included.\<close>

definition randint :: "env \<Rightarrow> int \<Rightarrow> int \<Rightarrow> client \<Rightarrow> int \<times> client" where
  "randint E a b c =
     (a + int (entropy E (nrand c)) mod (b - a + 1), c\<lparr>nrand := Suc (nrand c)\<rparr>)"

definition envelope :: "string \<Rightarrow> string \<Rightarrow> json list \<Rightarrow> int \<Rightarrow> json" where
  "envelope service method args ident =
     JObj [(''jsonrpc'', JStr ''2.0''),
           (''method'', JStr ''call''),
           (''params'', JObj [(''service'', JStr service),
                              (''method'', JStr method),
                              (''args'', JList args)]),
           (''id'', JInt ident)]"

text \<open>
  The end of \<^verbatim>\<open>_json_rpc\<close>, on the decoded response: \<^verbatim>\<open>"error" in resp\<close>, then
  \<^verbatim>\<open>resp["error"]\<close> or \<^verbatim>\<open>resp.get("result")\<close>. A decoded response that is not a dict makes
  one of the three raise.
\<close>

definition unwrap :: "json \<Rightarrow> client \<Rightarrow> (error + json) \<times> client" where
  "unwrap resp c =
     (case resp of
        JObj kvs \<Rightarrow>
          (case map_of kvs ''error'' of
             Some err \<Rightarrow> (Inl (RPCError err), emit [Logged ERROR (Rpc_error err)] c)
           | None \<Rightarrow> (Inr (case map_of kvs ''result'' of Some r \<Rightarrow> r | None \<Rightarrow> JNull), c))
      | JList xs \<Rightarrow> (if JStr ''error'' \<in> set xs then Inl TypeError else Inl AttributeError, c)
      | JStr s \<Rightarrow> (if is_infix ''error'' s then Inl TypeError else Inl AttributeError, c)
      | _ \<Rightarrow> (Inl TypeError, c))"

definition json_rpc ::
  "env \<Rightarrow> string \<Rightarrow> string \<Rightarrow> json list \<Rightarrow> client \<Rightarrow> (error + json) \<times> client" where
  "json_rpc E service method args c =
     (case randint E 1 1000000 c of
        (ident, c0) \<Rightarrow>
          (let payload = envelope service method args ident;
               c1 = emit [Logged DEBUG (Rpc_out payload)] c0
           in case post E payload c1 of
                (Inl exc, c2) \<Rightarrow> (Inl exc, c2)
              | (Inr None, c2) \<Rightarrow> (Inl JSONDecodeError, c2)
              | (Inr (Some resp), c2) \<Rightarrow> unwrap resp c2))"

section \<open>Session: \<^verbatim>\<open>authenticate\<close>, \<^verbatim>\<open>execute_kw\<close>, \<^verbatim>\<open>execute_batch\<close>\<close>

definition authenticate :: "env \<Rightarrow> client \<Rightarrow> (error + json) \<times> client" where
  "authenticate E c =
     (case json_rpc E COMMON ''authenticate''
             [JStr (db c), JStr (username c), JStr (api_key c), JObj []] c of
        (Inl exc, c1) \<Rightarrow> (Inl exc, c1)
      | (Inr result, c1) \<Rightarrow>
          if \<not> isinstance_int result then (Inl (AuthenticationError result), c1)
          else (Inr result, emit [Logged INFO (Authenticated result)] (c1\<lparr>uid := result\<rparr>)))"

definition execute_kw ::
  "env \<Rightarrow> string \<Rightarrow> string \<Rightarrow> json list \<Rightarrow> (string \<times> json) list \<Rightarrow> client \<Rightarrow>
   (error + json) \<times> client" where
  "execute_kw E model method args kwargs c =
     (case (if uid c = JNull then authenticate E c else (Inr (uid c), c)) of
        (Inl exc, c1) \<Rightarrow> (Inl exc, c1)
      | (Inr u, c1) \<Rightarrow>
          json_rpc E OBJECT ''execute_kw''
            [JStr (db c1), uid c1, JStr (api_key c1), JStr model, JStr method,
             JList args, JObj kwargs] c1)"

definition execute_batch :: "env \<Rightarrow> json list \<Rightarrow> client \<Rightarrow> (error + json) \<times> client" where
  "execute_batch E calls c =
     (case (if truthy (uid c) then (Inr (uid c), c) else authenticate E c) of
        (Inl exc, c1) \<Rightarrow> (Inl exc, c1)
      | (Inr u, c1) \<Rightarrow>
          json_rpc E OBJECT ''execute'' [JStr (db c1), u, JStr (api_key c1), JList calls] c1)"

definition version :: "env \<Rightarrow> client \<Rightarrow> (error + json) \<times> client" where
  "version E c = json_rpc E COMMON ''version'' [] c"

section \<open>Generic facade\<close>

text \<open>
  The facade only reads its dict arguments, so they are passed by value. An optional
  argument is an \<open>option\<close>; \<^verbatim>\<open>x or []\<close> replaces \<^verbatim>\<open>None\<close> (and the empty list) by \<open>[]\<close>.
\<close>

definition or_empty :: "'a list option \<Rightarrow> 'a list" where
  "or_empty x = (case x of None \<Rightarrow> [] | Some xs \<Rightarrow> xs)"

definition opt_json :: "('a \<Rightarrow> json) \<Rightarrow> 'a option \<Rightarrow> json" where
  "opt_json f x = (case x of None \<Rightarrow> JNull | Some v \<Rightarrow> f v)"

definition fields_get ::
  "env \<Rightarrow> string \<Rightarrow> string list option \<Rightarrow> client \<Rightarrow> (error + json) \<times> client" where
  "fields_get E model attributes c =
     execute_kw E model ''fields_get'' [JList []]
       [(''attributes'', JList (map JStr (or_empty attributes)))] c"

definition selection_labels ::
  "env \<Rightarrow> string \<Rightarrow> string \<Rightarrow> client \<Rightarrow> (error + (json \<times> json) list) \<times> client" where
  "selection_labels E model field c =
     (case fields_get E model (Some [''selection'']) c of
        (Inl exc, c1) \<Rightarrow> (Inl exc, c1)
      | (Inr meta, c1) \<Rightarrow>
          (case subscript meta field of
             Inl exc \<Rightarrow> (Inl exc, c1)
           | Inr info \<Rightarrow>
               (case subscript info ''selection'' of
                  Inl exc \<Rightarrow> (Inl exc, c1)
                | Inr sel \<Rightarrow> (py_dict sel, c1))))"

definition create ::
  "env \<Rightarrow> string \<Rightarrow> (string \<times> json) list \<Rightarrow> client \<Rightarrow> (error + int) \<times> client" where
  "create E model values c =
     (case execute_kw E model ''create'' [JObj values] [] c of
        (Inl exc, c1) \<Rightarrow> (Inl exc, c1)
      | (Inr r, c1) \<Rightarrow> (py_int E r, c1))"

definition read ::
  "env \<Rightarrow> string \<Rightarrow> int list \<Rightarrow> string list option \<Rightarrow> client \<Rightarrow>
   (error + json list) \<times> client" where
  "read E model ids fields' c =
     (case execute_kw E model ''read''
             [JList (map JInt ids), JList (map JStr (or_empty fields'))] [] c of
        (Inl exc, c1) \<Rightarrow> (Inl exc, c1)
      | (Inr r, c1) \<Rightarrow> (py_list r, c1))"

definition update ::
  "env \<Rightarrow> string \<Rightarrow> int list \<Rightarrow> (string \<times> json) list \<Rightarrow> client \<Rightarrow>
   (error + bool) \<times> client" where
  "update E model ids values c =
     (case execute_kw E model ''write'' [JList (map JInt ids), JObj values] [] c of
        (Inl exc, c1) \<Rightarrow> (Inl exc, c1)
      | (Inr r, c1) \<Rightarrow> (Inr (truthy r), c1))"

definition delete :: "env \<Rightarrow> string \<Rightarrow> int list \<Rightarrow> client \<Rightarrow> (error + bool) \<times> client" where
  "delete E model ids c =
     (case execute_kw E model ''unlink'' [JList (map JInt ids)] [] c of
        (Inl exc, c1) \<Rightarrow> (Inl exc, c1)
      | (Inr r, c1) \<Rightarrow> (Inr (truthy r), c1))"

definition search ::
  "env \<Rightarrow> string \<Rightarrow> json list option \<Rightarrow> int \<Rightarrow> int option \<Rightarrow> string option \<Rightarrow> client \<Rightarrow>
   (error + json list) \<times> client" where
  "search E model domain offset limit order c =
     (case execute_kw E model ''search''
             [JList (or_empty domain), JInt offset, opt_json JInt limit, opt_json JStr order]
             [] c of
        (Inl exc, c1) \<Rightarrow> (Inl exc, c1)
      | (Inr r, c1) \<Rightarrow> (py_list r, c1))"

text \<open>The keyword arguments that \<^verbatim>\<open>search_read\<close> collects in \<^verbatim>\<open>opts\<close>.\<close>

definition search_read_opts ::
  "string list option \<Rightarrow> int \<Rightarrow> int option \<Rightarrow> string option \<Rightarrow> (string \<times> json) list" where
  "search_read_opts fields' offset limit order =
     (let opts = [];
          opts = (case fields' of None \<Rightarrow> opts
                  | Some fs \<Rightarrow> obj_set ''fields'' (JList (map JStr fs)) opts);
          opts = (if offset \<noteq> 0 then obj_set ''offset'' (JInt offset) opts else opts);
          opts = (case limit of None \<Rightarrow> opts | Some l \<Rightarrow> obj_set ''limit'' (JInt l) opts);
          opts = (case order of None \<Rightarrow> opts
                  | Some s \<Rightarrow> if s \<noteq> [] then obj_set ''order'' (JStr s) opts else opts)
      in opts)"

definition search_read ::
  "env \<Rightarrow> string \<Rightarrow> json list option \<Rightarrow> string list option \<Rightarrow> int \<Rightarrow> int option \<Rightarrow>
   string option \<Rightarrow> client \<Rightarrow> (error + json list) \<times> client" where
  "search_read E model domain fields' offset limit order c =
     (case execute_kw E model ''search_read'' [JList (or_empty domain)]
             (search_read_opts fields' offset limit order) c of
        (Inl exc, c1) \<Rightarrow> (Inl exc, c1)
      | (Inr r, c1) \<Rightarrow> (py_list r, c1))"

definition search_count ::
  "env \<Rightarrow> string \<Rightarrow> json list option \<Rightarrow> client \<Rightarrow> (error + int) \<times> client" where
  "search_count E model domain c =
     (case execute_kw E model ''search_count'' [JList (or_empty domain)] [] c of
        (Inl exc, c1) \<Rightarrow> (Inl exc, c1)
      | (Inr r, c1) \<Rightarrow> (py_int E r, c1))"

definition read_group ::
  "env \<Rightarrow> string \<Rightarrow> string list \<Rightarrow> string list \<Rightarrow> json list option \<Rightarrow> client \<Rightarrow>
   (error + json list) \<times> client" where
  "read_group E model fields' groupby domain c =
     (case execute_kw E model ''read_group''
             [JList (or_empty domain), JList (map JStr fields'), JList (map JStr groupby)] [] c of
        (Inl exc, c1) \<Rightarrow> (Inl exc, c1)
      | (Inr r, c1) \<Rightarrow> (py_list r, c1))"

definition copy_record ::
  "env \<Rightarrow> string \<Rightarrow> int \<Rightarrow> (string \<times> json) list option \<Rightarrow> client \<Rightarrow>
   (error + int) \<times> client" where
  "copy_record E model record_id defaults c =
     (case execute_kw E model ''copy'' [JList [JInt record_id], JObj (or_empty defaults)] [] c of
        (Inl exc, c1) \<Rightarrow> (Inl exc, c1)
      | (Inr r, c1) \<Rightarrow> (py_int E r, c1))"

section \<open>Batch: \<^verbatim>\<open>bulk_write\<close>\<close>

text \<open>
  \<open>id_vals_map\<close> is the mapping as \<^verbatim>\<open>items()\<close> enumerates it: its entries in key order.
\<close>

definition write_call :: "string \<Rightarrow> int \<times> (string \<times> json) list \<Rightarrow> json" where
  "write_call model item =
     JObj [(''model'', JStr model),
           (''method'', JStr ''write''),
           (''args'', JList [JList [JInt (fst item)], JObj (snd item)]),
           (''kwargs'', JObj [])]"

definition bulk_write ::
  "env \<Rightarrow> string \<Rightarrow> (int \<times> (string \<times> json) list) list \<Rightarrow> client \<Rightarrow>
   (error + json) \<times> client" where
  "bulk_write E model id_vals_map c =
     (let calls = map (write_call model) id_vals_map
      in execute_batch E calls c)"

section \<open>Pagination: \<^verbatim>\<open>iter_search_read\<close>\<close>

text \<open>
  The generator, consumed to its end. The \<^verbatim>\<open>while True\<close> loop stops only on an empty page
  or an exception, so the recursion takes fuel: \<open>Unfinished\<close> is the loop still running
  when the fuel is spent. The records yielded before the generator stops are part of
  the result whatever the ending.
\<close>

datatype ending = Finished | Failed error | Unfinished

fun iter_search_read_from ::
  "nat \<Rightarrow> env \<Rightarrow> string \<Rightarrow> json list option \<Rightarrow> int \<Rightarrow> string list option \<Rightarrow> string option \<Rightarrow>
   int \<Rightarrow> client \<Rightarrow> (json list \<times> ending) \<times> client" where
  "iter_search_read_from 0 E model domain batch fields' order offset c = (([], Unfinished), c)"
| "iter_search_read_from (Suc fuel) E model domain batch fields' order offset c =
     (case search_read E model domain fields' offset (Some batch) order c of
        (Inl exc, c1) \<Rightarrow> (([], Failed exc), c1)
      | (Inr records, c1) \<Rightarrow>
          if records = [] then (([], Finished), c1)
          else (case iter_search_read_from fuel E model domain batch fields' order
                       (offset + int (length records)) c1 of
                  ((rest, fin), c2) \<Rightarrow> ((records @ rest, fin), c2)))"

definition iter_search_read ::
  "nat \<Rightarrow> env \<Rightarrow> string \<Rightarrow> json list option \<Rightarrow> int \<Rightarrow> string list option \<Rightarrow> string option \<Rightarrow>
   client \<Rightarrow> (json list \<times> ending) \<times> client" where
  "iter_search_read fuel E model domain batch fields' order c =
     iter_search_read_from fuel E model domain batch fields' order 0 c"

section \<open>Task helpers\<close>

definition update_task ::
  "env \<Rightarrow> int \<Rightarrow> (string \<times> json) list \<Rightarrow> client \<Rightarrow> (error + bool) \<times> client" where
  "update_task E task_id values c = update E TASK_MODEL [task_id] values c"

definition create_task ::
  "env \<Rightarrow> (string \<times> json) list \<Rightarrow> client \<Rightarrow> (error + int) \<times> client" where
  "create_task E values c = create E TASK_MODEL values c"

text \<open>
  \<^verbatim>\<open>next(c for c, lbl in sel.items() if lbl.lower() == state_label.lower())\<close>: the
  labels are lowered one after the other until one matches.
\<close>

fun first_code :: "env \<Rightarrow> string \<Rightarrow> (json \<times> json) list \<Rightarrow> error + json" where
  "first_code E state_label [] = Inl StopIteration"
| "first_code E state_label (entry # sel) =
     (case snd entry of
        JStr lbl \<Rightarrow>
          if lower E lbl = lower E state_label then Inr (fst entry)
          else first_code E state_label sel
      | _ \<Rightarrow> Inl AttributeError)"

text \<open>The body of the \<^verbatim>\<open>try\<close> block of \<^verbatim>\<open>move_task\<close>, up to the assignment of \<^verbatim>\<open>code\<close>.\<close>

definition lookup_state :: "env \<Rightarrow> string \<Rightarrow> client \<Rightarrow> (error + json) \<times> client" where
  "lookup_state E state_label c =
     (case selection_labels E TASK_MODEL ''state'' c of
        (Inl exc, c1) \<Rightarrow> (Inl exc, c1)
      | (Inr sel, c1) \<Rightarrow> (first_code E state_label sel, c1))"

definition move_task ::
  "env \<Rightarrow> int \<Rightarrow> int \<Rightarrow> string option \<Rightarrow> client \<Rightarrow> (error + bool) \<times> client" where
  "move_task E task_id stage_id state_label c =
     (let vals = [(''stage_id'', JInt stage_id)]
      in case state_label of
           None \<Rightarrow> update_task E task_id vals c
         | Some label \<Rightarrow>
             if label = [] then update_task E task_id vals c
             else (case lookup_state E label c of
                     (Inr code, c1) \<Rightarrow> update_task E task_id (obj_set ''state'' code vals) c1
                   | (Inl exc, c1) \<Rightarrow>
                       if exc = StopIteration \<or> exc = KeyError then
                         update_task E task_id vals
                           (emit [Logged WARNING (State_label_not_found label)] c1)
                       else (Inl exc, c1)))"

text \<open>
  \<^verbatim>\<open>create_subtask\<close> copies the dict it is given and writes into the copy. Dict objects
  live in a store: \<open>cells h a\<close> is the content of the object at address \<open>a\<close>, and the
  addresses below \<open>fresh h\<close> are the allocated ones.
\<close>

record store =
  cells :: "nat \<Rightarrow> (string \<times> json) list"
  fresh :: nat

definition dict_copy :: "nat \<Rightarrow> store \<Rightarrow> nat \<times> store" where
  "dict_copy a h = (fresh h, h\<lparr>cells := (cells h)(fresh h := cells h a), fresh := Suc (fresh h)\<rparr>)"

definition dict_setitem :: "nat \<Rightarrow> string \<Rightarrow> json \<Rightarrow> store \<Rightarrow> store" where
  "dict_setitem a k v h = h\<lparr>cells := (cells h)(a := obj_set k v (cells h a))\<rparr>"

definition create_subtask ::
  "env \<Rightarrow> int \<Rightarrow> nat \<Rightarrow> store \<times> client \<Rightarrow> (error + int) \<times> store \<times> client" where
  "create_subtask E parent_id values hc =
     (case hc of
        (h, c) \<Rightarrow>
          (case dict_copy values h of
             (vals, h1) \<Rightarrow>
               (let h2 = dict_setitem vals ''parent_id'' (JInt parent_id) h1
                in case create_task E (cells h2 vals) c of
                     (r, c1) \<Rightarrow> (r, h2, c1))))"

section \<open>Life cycle\<close>

definition rstrip_slash :: "string \<Rightarrow> string" where
  "rstrip_slash s = rev (dropWhile (\<lambda>ch. ch = CHR ''/'') (rev s))"

definition OdooClient :: "string \<Rightarrow> string \<Rightarrow> string \<Rightarrow> string \<Rightarrow> int \<Rightarrow> bool \<Rightarrow> client" where
  "OdooClient url' db' username' api_key' timeout' verify_ssl' =
     \<lparr>url = rstrip_slash url', db = db', username = username', api_key = api_key',
      timeout = timeout', verify_ssl = verify_ssl', sess_open = True, uid = JNull,
      nposts = 0, nrand = 0, trace = []\<rparr>"

definition enter :: "env \<Rightarrow> client \<Rightarrow> (error + unit) \<times> client" where
  "enter E c =
     (case authenticate E c of
        (Inl exc, c1) \<Rightarrow> (Inl exc, c1)
      | (Inr u, c1) \<Rightarrow> (Inr (), c1))"

definition exit :: "client \<Rightarrow> client" where
  "exit c = c"

text \<open>\<^verbatim>\<open>with client as odoo: body\<close>.\<close>

definition with_client ::
  "env \<Rightarrow> client \<Rightarrow> (client \<Rightarrow> (error + 'a) \<times> client) \<Rightarrow> (error + 'a) \<times> client" where
  "with_client E c body =
     (case enter E c of
        (Inl exc, c1) \<Rightarrow> (Inl exc, c1)
      | (Inr u, c1) \<Rightarrow> (case body c1 of (r, c2) \<Rightarrow> (r, exit c2)))"

section \<open>Vocabulary of the properties\<close>

text \<open>The effects added between two states, the requests among them, and the round trips.\<close>

definition new_events :: "client \<Rightarrow> client \<Rightarrow> event list" where
  "new_events c c' = drop (length (trace c)) (trace c')"

text \<open>
  Every call of \<^verbatim>\<open>_json_rpc\<close> logs its payload once, at level \<^verbatim>\<open>DEBUG\<close>, whatever the
  transport does afterwards: these records are the round trips.
\<close>

definition rpcs :: "event list \<Rightarrow> json list" where
  "rpcs evs = concat (map (\<lambda>e. case e of Logged DEBUG (Rpc_out p) \<Rightarrow> [p] | _ \<Rightarrow> []) evs)"

definition next_id :: "env \<Rightarrow> client \<Rightarrow> int" where
  "next_id E c = fst (randint E 1 1000000 c)"

text \<open>The state after a round trip with payload \<open>p\<close> that the first attempt completes.\<close>

definition sent :: "json \<Rightarrow> client \<Rightarrow> client" where
  "sent p c =
     c\<lparr>nposts := Suc (nposts c), nrand := Suc (nrand c),
       trace := trace c @ [Logged DEBUG (Rpc_out p), Posted p]\<rparr>"

text \<open>
  The \<open>n\<close>-th POST attempt is answered by a response that \<^verbatim>\<open>raise_for_status\<close> accepts,
  whose body is a JSON object with no \<^verbatim>\<open>error\<close> field and with the \<^verbatim>\<open>result\<close> \<open>r\<close>.
\<close>

definition answers :: "env \<Rightarrow> nat \<Rightarrow> json \<Rightarrow> bool" where
  "answers E n r =
     (case wire E n of
        Response status (Some (JObj kvs)) \<Rightarrow>
          \<not> (400 \<le> status \<and> status < 600) \<and> map_of kvs ''error'' = None \<and>
          map_of kvs ''result'' = Some r
      | _ \<Rightarrow> False)"

text \<open>The offsets of successive pages: each page advances the offset by its length.\<close>

fun offsets :: "int \<Rightarrow> 'a list list \<Rightarrow> int list" where
  "offsets off [] = []"
| "offsets off (page # pages) = off # offsets (off + int (length page)) pages"

text \<open>The payload of the \<^verbatim>\<open>execute_kw\<close> round trip of a client with a cached uid.\<close>

definition execute_kw_request ::
  "client \<Rightarrow> string \<Rightarrow> string \<Rightarrow> json list \<Rightarrow> (string \<times> json) list \<Rightarrow> int \<Rightarrow> json" where
  "execute_kw_request c model method args kwargs ident =
     envelope OBJECT ''execute_kw''
       [JStr (db c), uid c, JStr (api_key c), JStr model, JStr method, JList args, JObj kwargs]
       ident"

definition authenticate_request :: "client \<Rightarrow> int \<Rightarrow> json" where
  "authenticate_request c ident =
     envelope COMMON ''authenticate''
       [JStr (db c), JStr (username c), JStr (api_key c), JObj []] ident"

text \<open>Reading a posted payload back.\<close>

definition jget :: "string \<Rightarrow> json \<Rightarrow> json" where
  "jget k j = (case j of JObj kvs \<Rightarrow> (case map_of kvs k of Some v \<Rightarrow> v | None \<Rightarrow> JNull) | _ \<Rightarrow> JNull)"

definition jkeys :: "json \<Rightarrow> string list" where
  "jkeys j = (case j of JObj kvs \<Rightarrow> map fst kvs | _ \<Rightarrow> [])"

definition service_of :: "json \<Rightarrow> json" where
  "service_of p = jget ''service'' (jget ''params'' p)"

definition method_of :: "json \<Rightarrow> json" where
  "method_of p = jget ''method'' (jget ''params'' p)"

definition args_of :: "json \<Rightarrow> json list" where
  "args_of p = (case jget ''args'' (jget ''params'' p) of JList xs \<Rightarrow> xs | _ \<Rightarrow> [])"

definition well_framed :: "json \<Rightarrow> bool" where
  "well_framed p =
     (jkeys p = [''jsonrpc'', ''method'', ''params'', ''id''] \<and>
      jget ''jsonrpc'' p = JStr ''2.0'' \<and>
      jget ''method'' p = JStr ''call'' \<and>
      jkeys (jget ''params'' p) = [''service'', ''method'', ''args''] \<and>
      jget ''args'' (jget ''params'' p) = JList (args_of p) \<and>
      (case jget ''id'' p of JInt i \<Rightarrow> 1 \<le> i \<and> i \<le> 1000000 | _ \<Rightarrow> False))"

definition is_authenticate :: "json \<Rightarrow> bool" where
  "is_authenticate p = (service_of p = JStr COMMON \<and> method_of p = JStr ''authenticate'')"

definition is_version :: "json \<Rightarrow> bool" where
  "is_version p = (service_of p = JStr COMMON \<and> method_of p = JStr ''version'')"

definition authenticated_call :: "client \<Rightarrow> json \<Rightarrow> bool" where
  "authenticated_call c p =
     (service_of p = JStr OBJECT \<and>
      take 3 (args_of p) = [JStr (db c), uid c, JStr (api_key c)])"

text \<open>The operations of the client that reach the wire, and a caller issuing them in turn.\<close>

datatype operation =
    Authenticate
  | Version
  | Execute_kw string string "json list" "(string \<times> json) list"
  | Execute_batch "json list"
  | Fields_get string "string list option"
  | Create string "(string \<times> json) list"
  | Read string "int list" "string list option"
  | Update string "int list" "(string \<times> json) list"
  | Delete string "int list"
  | Search string "json list option" int "int option" "string option"
  | Search_read string "json list option" "string list option" int "int option" "string option"
  | Search_count string "json list option"
  | Read_group string "string list" "string list" "json list option"
  | Copy_record string int "(string \<times> json) list option"
  | Bulk_write string "(int \<times> (string \<times> json) list) list"

fun perform :: "env \<Rightarrow> operation \<Rightarrow> client \<Rightarrow> client" where
  "perform E Authenticate c = snd (authenticate E c)"
| "perform E Version c = snd (version E c)"
| "perform E (Execute_kw model method args kwargs) c = snd (execute_kw E model method args kwargs c)"
| "perform E (Execute_batch calls) c = snd (execute_batch E calls c)"
| "perform E (Fields_get model attributes) c = snd (fields_get E model attributes c)"
| "perform E (Create model values) c = snd (create E model values c)"
| "perform E (Read model ids fields') c = snd (read E model ids fields' c)"
| "perform E (Update model ids values) c = snd (update E model ids values c)"
| "perform E (Delete model ids) c = snd (delete E model ids c)"
| "perform E (Search model domain offset limit order) c =
     snd (search E model domain offset limit order c)"
| "perform E (Search_read model domain fields' offset limit order) c =
     snd (search_read E model domain fields' offset limit order c)"
| "perform E (Search_count model domain) c = snd (search_count E model domain c)"
| "perform E (Read_group model fields' groupby domain) c =
     snd (read_group E model fields' groupby domain c)"
| "perform E (Copy_record model record_id defaults) c =
     snd (copy_record E model record_id defaults c)"
| "perform E (Bulk_write model id_vals_map) c = snd (bulk_write E model id_vals_map c)"

fun perform_all :: "env \<Rightarrow> operation list \<Rightarrow> client \<Rightarrow> client" where
  "perform_all E [] c = c"
| "perform_all E (op # ops) c = perform_all E ops (perform E op c)"

text \<open>
  The state after a round trip that took \<open>k\<close> attempts and added the effects \<open>evs\<close>.
\<close>

definition moved :: "nat \<Rightarrow> event list \<Rightarrow> client \<Rightarrow> client" where
  "moved k evs c = c\<lparr>nposts := nposts c + k, nrand := Suc (nrand c), trace := trace c @ evs\<rparr>"

text \<open>
  A request as the wire protocol wants it from an authenticated operation of the client
  in state \<open>c\<close>: framed, and either the authentication call of the lazy login or a call
  of the object namespace that starts with the database, the cached uid and the secret.
\<close>

definition wire_ok :: "client \<Rightarrow> json \<Rightarrow> bool" where
  "wire_ok c p = (well_framed p \<and> (is_authenticate p \<or> authenticated_call c p))"

text \<open>The request identifier drawn at the \<open>k\<close>-th call of \<^verbatim>\<open>random.randint\<close>.\<close>

definition request_id :: "env \<Rightarrow> nat \<Rightarrow> int" where
  "request_id E k = 1 + int (entropy E k) mod 1000000"

text \<open>The payload of the round trip of \<^verbatim>\<open>search_read\<close> called with the given offset.\<close>

definition search_read_request ::
  "client \<Rightarrow> string \<Rightarrow> json list option \<Rightarrow> string list option \<Rightarrow> int \<Rightarrow> int option \<Rightarrow>
   string option \<Rightarrow> int \<Rightarrow> json" where
  "search_read_request c model domain fields' offset limit order ident =
     execute_kw_request c model ''search_read'' [JList (or_empty domain)]
       (search_read_opts fields' offset limit order) ident"

text \<open>The payload of the batch round trip of an authenticated client.\<close>

definition batch_request :: "client \<Rightarrow> json list \<Rightarrow> int \<Rightarrow> json" where
  "batch_request c calls ident =
     envelope OBJECT ''execute'' [JStr (db c), uid c, JStr (api_key c), JList calls] ident"

text \<open>A label of the selection matches the supplied one case-insensitively.\<close>

definition label_matches :: "env \<Rightarrow> string \<Rightarrow> json \<times> json \<Rightarrow> bool" where
  "label_matches E state_label entry =
     (case snd entry of JStr lbl \<Rightarrow> lower E lbl = lower E state_label | _ \<Rightarrow> False)"

definition is_str :: "json \<Rightarrow> bool" where
  "is_str j = (case j of JStr s \<Rightarrow> True | _ \<Rightarrow> False)"

text \<open>The two round trips of \<^verbatim>\<open>move_task\<close>: the metadata of the task model, and the update.\<close>

definition metadata_request :: "client \<Rightarrow> int \<Rightarrow> json" where
  "metadata_request c ident =
     execute_kw_request c TASK_MODEL ''fields_get'' [JList []]
       [(''attributes'', JList [JStr ''selection''])] ident"

definition write_task_request :: "client \<Rightarrow> int \<Rightarrow> (string \<times> json) list \<Rightarrow> int \<Rightarrow> json" where
  "write_task_request c task_id vals ident =
     execute_kw_request c TASK_MODEL ''write'' [JList [JInt task_id], JObj vals] [] ident"

text \<open>
  The keyword arguments of a posted \<^verbatim>\<open>execute_kw\<close> request (the seventh argument), and the
  offset that they carry: the remote service reads a missing \<^verbatim>\<open>offset\<close> as 0.
\<close>

definition kwargs_of :: "json \<Rightarrow> json" where
  "kwargs_of p = (case drop 6 (args_of p) of [] \<Rightarrow> JNull | k # rest \<Rightarrow> k)"

definition posted_offset :: "json \<Rightarrow> int" where
  "posted_offset p = (case jget ''offset'' (kwargs_of p) of JInt i \<Rightarrow> i | _ \<Rightarrow> 0)"

section \<open>Concrete scenarios\<close>

text \<open>
  A client, and environments given by a wire script; \<open>lower_ascii\<close> lowers the ASCII
  letters, which is what \<^verbatim>\<open>str.lower\<close> does on ASCII strings.
\<close>

definition lower_ascii :: "string \<Rightarrow> string" where
  "lower_ascii s =
     map (\<lambda>ch. case map_of (zip ''ABCDEFGHIJKLMNOPQRSTUVWXYZ'' ''abcdefghijklmnopqrstuvwxyz'') ch of
                 Some l \<Rightarrow> l | None \<Rightarrow> ch) s"

text \<open>
  \<open>int_ascii\<close> is what \<^verbatim>\<open>int\<close> does on ASCII strings: it strips the surrounding
  whitespace, takes an optional sign, and reads decimal digits, with single underscores
  allowed between digits; strings of more than 4300 digits (the default limit of the
  interpreter) and all other strings raise \<^verbatim>\<open>ValueError\<close>.
\<close>

definition is_space :: "char \<Rightarrow> bool" where
  "is_space ch =
     (ch \<in> set [CHR 0x09, CHR 0x0A, CHR 0x0B, CHR 0x0C, CHR 0x0D,
                 CHR 0x1C, CHR 0x1D, CHR 0x1E, CHR 0x1F, CHR 0x20])"

definition strip :: "string \<Rightarrow> string" where
  "strip s = rev (dropWhile is_space (rev (dropWhile is_space s)))"

definition digit_of :: "char \<Rightarrow> nat option" where
  "digit_of ch = map_of (zip ''0123456789'' [0, 1, 2, 3, 4, 5, 6, 7, 8, 9]) ch"

fun digits :: "nat \<Rightarrow> bool \<Rightarrow> string \<Rightarrow> nat option" where
  "digits acc after_digit [] = (if after_digit then Some acc else None)"
| "digits acc after_digit (ch # s) =
     (if ch = CHR ''_'' then (if after_digit then digits acc False s else None)
      else case digit_of ch of
             None \<Rightarrow> None
           | Some d \<Rightarrow> digits (10 * acc + d) True s)"

definition int_ascii :: "string \<Rightarrow> int option" where
  "int_ascii s =
     (let t = strip s;
          body = (case t of ch # r \<Rightarrow> if ch = CHR ''-'' \<or> ch = CHR ''+'' then r else t | [] \<Rightarrow> t);
          negative = (case t of ch # r \<Rightarrow> ch = CHR ''-'' | [] \<Rightarrow> False)
      in if 4300 < length (filter (\<lambda>ch. ch \<noteq> CHR ''_'') body) then None
         else case digits 0 False body of
                None \<Rightarrow> None
              | Some n \<Rightarrow> Some (if negative then - int n else int n))"

definition scripted :: "(nat \<Rightarrow> outcome) \<Rightarrow> env" where
  "scripted w = \<lparr>wire = w, entropy = (\<lambda>k. 41 + k), lower = lower_ascii, int_of_str = int_ascii\<rparr>"

definition ok :: "json \<Rightarrow> outcome" where
  "ok r = Response 200 (Some (JObj [(''jsonrpc'', JStr ''2.0''), (''id'', JInt 42), (''result'', r)]))"

definition script :: "outcome list \<Rightarrow> nat \<Rightarrow> outcome" where
  "script outs i = (if i < length outs then outs ! i else Refused)"

definition bot :: client where
  "bot = OdooClient ''https://my.odoo.com/jsonrpc/'' ''my'' ''bot@example.com'' ''secret'' 30 True"

definition bot7 :: client where
  "bot7 = bot\<lparr>uid := JInt 7\<rparr>"

text \<open>A wire that gives every attempt the same outcome, and a \<^verbatim>\<open>with\<close> body that does nothing.\<close>

definition always :: "outcome \<Rightarrow> nat \<Rightarrow> outcome" where
  "always out i = out"

definition idle :: "client \<Rightarrow> (error + unit) \<times> client" where
  "idle c = (Inr (), c)"

text \<open>A store with one dict, at address 0.\<close>

definition one_dict :: store where
  "one_dict = \<lparr>cells = (\<lambda>a. if a = 0 then [(''name'', JStr ''Write docs'')] else []), fresh = 1\<rparr>"

section \<open>Transport\<close>

lemma post_first:
  "\<not> retryable (wire E (nposts c)) \<Longrightarrow>
   post E payload c = (verdict (wire E (nposts c)), after 1 [Posted payload] c)"
  by (cases "wire E (nposts c)")
     (simp_all add: post_def range3_def sess_post_def emit_def after_def)

lemma post_second:
  "retryable (wire E (nposts c)) \<Longrightarrow> \<not> retryable (wire E (Suc (nposts c))) \<Longrightarrow>
   post E payload c =
     (verdict (wire E (Suc (nposts c))),
      after 2 [Posted payload, Logged WARNING (Transient (raised (wire E (nposts c))) 1), Slept 1,
               Posted payload] c)"
  by (cases "wire E (nposts c)"; cases "wire E (Suc (nposts c))")
     (simp_all add: post_def range3_def sess_post_def backoff_def emit_def after_def)

lemma post_third:
  "retryable (wire E (nposts c)) \<Longrightarrow> retryable (wire E (Suc (nposts c))) \<Longrightarrow>
   post E payload c =
     (verdict (wire E (Suc (Suc (nposts c)))),
      after 3 [Posted payload, Logged WARNING (Transient (raised (wire E (nposts c))) 1), Slept 1,
               Posted payload, Logged WARNING (Transient (raised (wire E (Suc (nposts c)))) 2),
               Slept 2, Posted payload] c)"
  by (cases "wire E (nposts c)"; cases "wire E (Suc (nposts c))";
      cases "wire E (Suc (Suc (nposts c)))")
     (simp_all add: post_def range3_def sess_post_def backoff_def emit_def after_def)

lemma post_cases:
  obtains k evs where "post E payload c = (verdict (delivered E (nposts c)), after k evs c)"
    and "attempts evs = replicate k payload" and "rpcs evs = []" and "1 \<le> k" and "k \<le> 3"
proof (cases "retryable (wire E (nposts c))")
  case False
  then have "post E payload c =
      (verdict (delivered E (nposts c)), after 1 [Posted payload] c)"
    using post_first[of E c payload] by (simp add: delivered_def)
  then show ?thesis
    by (rule that) (simp_all add: attempts_def rpcs_def)
next
  case r1: True
  show ?thesis
  proof (cases "retryable (wire E (Suc (nposts c)))")
    case False
    then have "post E payload c =
        (verdict (delivered E (nposts c)),
         after 2 [Posted payload, Logged WARNING (Transient (raised (wire E (nposts c))) 1),
                  Slept 1, Posted payload] c)"
      using post_second[of E c payload] r1 by (simp add: delivered_def)
    then show ?thesis
      by (rule that) (simp_all add: attempts_def rpcs_def numeral_2_eq_2)
  next
    case True
    then have "post E payload c =
        (verdict (delivered E (nposts c)),
         after 3 [Posted payload, Logged WARNING (Transient (raised (wire E (nposts c))) 1),
                  Slept 1, Posted payload,
                  Logged WARNING (Transient (raised (wire E (Suc (nposts c)))) 2), Slept 2,
                  Posted payload] c)"
      using post_third[of E c payload] r1 by (simp add: delivered_def)
    then show ?thesis
      by (rule that) (simp_all add: attempts_def rpcs_def numeral_3_eq_3)
  qed
qed

lemma trace_after [simp]: "trace (after k evs c) = trace c @ evs"
  by (simp add: after_def)

text \<open>
  C1. \<^verbatim>\<open>_post\<close> makes at most three attempts, all with the same payload. An attempt is
  retried only when it fails to connect or is answered with a status from 500 to 599;
  the client then warns and sleeps 1 second after the first failure and 2 seconds after
  the second, before it posts again. Any other outcome ends the call at once: in
  particular a status from 400 to 499 is raised after a single attempt. The outcome of
  the third attempt ends the call whatever it is, so a retryable failure there is raised.
\<close>

theorem post_retry_policy:
  "(let n = nposts c; p = Posted payload;
        w1 = [Logged WARNING (Transient (raised (wire E n)) 1), Slept 1];
        w2 = [Logged WARNING (Transient (raised (wire E (n + 1))) 2), Slept 2];
        new = new_events c (snd (post E payload c))
    in (\<not> retryable (wire E n) \<longrightarrow>
          post E payload c = (verdict (wire E n), after 1 [p] c)) \<and>
       (retryable (wire E n) \<and> \<not> retryable (wire E (n + 1)) \<longrightarrow>
          post E payload c = (verdict (wire E (n + 1)), after 2 ([p] @ w1 @ [p]) c)) \<and>
       (retryable (wire E n) \<and> retryable (wire E (n + 1)) \<longrightarrow>
          post E payload c = (verdict (wire E (n + 2)), after 3 ([p] @ w1 @ [p] @ w2 @ [p]) c)) \<and>
       (\<forall>s b. wire E n = Response s b \<and> 400 \<le> s \<and> s < 500 \<longrightarrow>
          post E payload c = (Inl (HTTPError s), after 1 [p] c)) \<and>
       1 \<le> length (attempts new) \<and> length (attempts new) \<le> 3 \<and>
       set (attempts new) = {payload})"
proof -
  obtain k evs where r: "post E payload c = (verdict (delivered E (nposts c)), after k evs c)"
    and a: "attempts evs = replicate k payload" and k: "1 \<le> k" "k \<le> 3"
    by (rule post_cases)
  have new: "new_events c (snd (post E payload c)) = evs"
    by (simp add: r new_events_def)
  have four: "post E payload c = (Inl (HTTPError s), after 1 [Posted payload] c)"
    if "wire E (nposts c) = Response s b" "400 \<le> s" "s < 500" for s b
    using post_first[of E c payload] that by simp
  show ?thesis
    unfolding Let_def new a
    using k post_first[of E c payload] post_second[of E c payload] post_third[of E c payload] four
    by auto
qed

theorem post_retry_policy_witness:
  "post (scripted (script [Response 404 None, ok JNull])) (JStr ''ping'') bot =
     (Inl (HTTPError 404), after 1 [Posted (JStr ''ping'')] bot) \<and>
   post (scripted (script [Refused, ok JNull])) (JStr ''ping'') bot =
     (Inr (Some (JObj [(''jsonrpc'', JStr ''2.0''), (''id'', JInt 42), (''result'', JNull)])),
      after 2 [Posted (JStr ''ping''), Logged WARNING (Transient ConnectionError 1), Slept 1,
               Posted (JStr ''ping'')] bot) \<and>
   post (scripted (script [Response 503 None, Refused, Response 502 None, ok JNull]))
        (JStr ''ping'') bot =
     (Inl (HTTPError 502),
      after 3 [Posted (JStr ''ping''), Logged WARNING (Transient (HTTPError 503) 1), Slept 1,
               Posted (JStr ''ping''), Logged WARNING (Transient ConnectionError 2), Slept 2,
               Posted (JStr ''ping'')] bot)"
  using post_retry_policy[of bot "JStr ''ping''" "scripted (script [Response 404 None, ok JNull])"]
        post_retry_policy[of bot "JStr ''ping''" "scripted (script [Refused, ok JNull])"]
        post_retry_policy[of bot "JStr ''ping''"
          "scripted (script [Response 503 None, Refused, Response 502 None, ok JNull])"]
  by (simp add: Let_def scripted_def script_def bot_def OdooClient_def ok_def)

section \<open>Envelope\<close>

lemma next_id_range: "1 \<le> next_id E c \<and> next_id E c \<le> 1000000"
  by (simp add: next_id_def randint_def)

lemma fst_unwrap: "fst (unwrap resp c) = fst (unwrap resp c')"
  by (simp add: unwrap_def split: json.splits option.splits)

lemma unwrap_object:
  "fst (unwrap (JObj kvs) c) =
     (case map_of kvs ''error'' of
        Some err \<Rightarrow> Inl (RPCError err)
      | None \<Rightarrow> Inr (case map_of kvs ''result'' of Some r \<Rightarrow> r | None \<Rightarrow> JNull))"
  by (simp add: unwrap_def split: option.splits)

lemma unwrap_state:
  obtains evs where "snd (unwrap resp c) = emit evs c" and "attempts evs = []" and "rpcs evs = []"
proof (cases "\<exists>kvs err. resp = JObj kvs \<and> map_of kvs ''error'' = Some err")
  case True
  then obtain kvs err where "resp = JObj kvs" "map_of kvs ''error'' = Some err" by blast
  then have "snd (unwrap resp c) = emit [Logged ERROR (Rpc_error err)] c"
    by (simp add: unwrap_def)
  then show ?thesis by (rule that) (simp_all add: attempts_def rpcs_def)
next
  case False
  then have "snd (unwrap resp c) = emit [] c"
    by (auto simp: unwrap_def emit_def split: json.splits option.splits)
  then show ?thesis by (rule that) (simp_all add: attempts_def rpcs_def)
qed

lemma attempts_append [simp]: "attempts (xs @ ys) = attempts xs @ attempts ys"
  by (simp add: attempts_def)

lemma rpcs_append [simp]: "rpcs (xs @ ys) = rpcs xs @ rpcs ys"
  by (simp add: rpcs_def)

lemma attempts_simps [simp]:
  "attempts [] = []" "attempts (Posted p # evs) = p # attempts evs"
  "attempts (Slept n # evs) = attempts evs" "attempts (Logged l m # evs) = attempts evs"
  by (simp_all add: attempts_def)

lemma rpcs_simps [simp]:
  "rpcs [] = []" "rpcs (Posted p # evs) = rpcs evs" "rpcs (Slept n # evs) = rpcs evs"
  "rpcs (Logged DEBUG (Rpc_out p) # evs) = p # rpcs evs"
  "rpcs (Logged WARNING m # evs) = rpcs evs" "rpcs (Logged ERROR m # evs) = rpcs evs"
  "rpcs (Logged INFO m # evs) = rpcs evs"
  by (simp_all add: rpcs_def)

text \<open>One round trip, whatever the transport does.\<close>

lemma json_rpc_cases:
  fixes E service meth args c
  defines "p \<equiv> envelope service meth args (next_id E c)"
  obtains k evs where
    "json_rpc E service meth args c =
       (case verdict (delivered E (nposts c)) of
          Inl exc \<Rightarrow> Inl exc
        | Inr None \<Rightarrow> Inl JSONDecodeError
        | Inr (Some resp) \<Rightarrow> fst (unwrap resp c),
        moved k evs c)"
    and "attempts evs = replicate k p" and "rpcs evs = [p]" and "1 \<le> k" and "k \<le> 3"
proof -
  define c1 where "c1 = emit [Logged DEBUG (Rpc_out p)] (c\<lparr>nrand := Suc (nrand c)\<rparr>)"
  have n1: "nposts c1 = nposts c" by (simp add: c1_def emit_def)
  obtain k evs where r: "post E p c1 = (verdict (delivered E (nposts c)), after k evs c1)"
    and a: "attempts evs = replicate k p" and q: "rpcs evs = []" and k: "1 \<le> k" "k \<le> 3"
    using post_cases[of E p c1] unfolding n1 by blast
  have unf: "json_rpc E service meth args c =
      (case post E p c1 of
         (Inl exc, c2) \<Rightarrow> (Inl exc, c2)
       | (Inr None, c2) \<Rightarrow> (Inl JSONDecodeError, c2)
       | (Inr (Some resp), c2) \<Rightarrow> unwrap resp c2)"
    by (simp add: json_rpc_def randint_def p_def next_id_def c1_def Let_def)
  have st: "after k evs c1 = moved k (Logged DEBUG (Rpc_out p) # evs) c"
    by (simp add: after_def c1_def emit_def moved_def)
  show ?thesis
  proof (cases "verdict (delivered E (nposts c))")
    case (Inl exc)
    then have "json_rpc E service meth args c =
        (case verdict (delivered E (nposts c)) of
           Inl exc \<Rightarrow> Inl exc
         | Inr None \<Rightarrow> Inl JSONDecodeError
         | Inr (Some resp) \<Rightarrow> fst (unwrap resp c),
         moved k (Logged DEBUG (Rpc_out p) # evs) c)"
      by (simp add: unf r st)
    then show ?thesis
      by (rule that) (use a q k in simp_all)
  next
    case (Inr body)
    show ?thesis
    proof (cases body)
      case None
      with Inr have "json_rpc E service meth args c =
          (case verdict (delivered E (nposts c)) of
             Inl exc \<Rightarrow> Inl exc
           | Inr None \<Rightarrow> Inl JSONDecodeError
           | Inr (Some resp) \<Rightarrow> fst (unwrap resp c),
           moved k (Logged DEBUG (Rpc_out p) # evs) c)"
        by (simp add: unf r st)
      then show ?thesis
        by (rule that) (use a q k in simp_all)
    next
      case (Some resp)
      obtain evs' where u: "snd (unwrap resp (after k evs c1)) = emit evs' (after k evs c1)"
        and a': "attempts evs' = []" and q': "rpcs evs' = []"
        by (rule unwrap_state)
      have "emit evs' (after k evs c1) = moved k (Logged DEBUG (Rpc_out p) # evs @ evs') c"
        by (simp add: st emit_def moved_def)
      with u have s: "snd (unwrap resp (after k evs c1)) =
          moved k (Logged DEBUG (Rpc_out p) # evs @ evs') c" by simp
      have f: "fst (unwrap resp (after k evs c1)) = fst (unwrap resp c)"
        by (rule fst_unwrap)
      have "unwrap resp (after k evs c1) =
          (fst (unwrap resp c), moved k (Logged DEBUG (Rpc_out p) # evs @ evs') c)"
        using s f by (metis prod.collapse)
      with Inr Some have "json_rpc E service meth args c =
          (case verdict (delivered E (nposts c)) of
             Inl exc \<Rightarrow> Inl exc
           | Inr None \<Rightarrow> Inl JSONDecodeError
           | Inr (Some resp) \<Rightarrow> fst (unwrap resp c),
           moved k (Logged DEBUG (Rpc_out p) # evs @ evs') c)"
        by (simp add: unf r)
      then show ?thesis
        by (rule that) (use a q k a' q' in simp_all)
    qed
  qed
qed

lemma answers_delivered:
  assumes "answers E n r"
  obtains status kvs where "wire E n = Response status (Some (JObj kvs))"
    and "\<not> (400 \<le> status \<and> status < 600)" and "map_of kvs ''error'' = None"
    and "map_of kvs ''result'' = Some r"
  using assms unfolding answers_def
  by (auto split: outcome.splits option.splits json.splits)

lemma json_rpc_answered:
  assumes "answers E (nposts c) r"
  shows "json_rpc E service method args c =
           (Inr r, sent (envelope service method args (next_id E c)) c)"
proof -
  obtain status kvs where w: "wire E (nposts c) = Response status (Some (JObj kvs))"
    and ok: "\<not> (400 \<le> status \<and> status < 600)" and e: "map_of kvs ''error'' = None"
    and res: "map_of kvs ''result'' = Some r"
    using assms by (rule answers_delivered)
  let ?p = "envelope service method args (next_id E c)"
  let ?c1 = "emit [Logged DEBUG (Rpc_out ?p)] (c\<lparr>nrand := Suc (nrand c)\<rparr>)"
  have n1: "nposts ?c1 = nposts c" by (simp add: emit_def)
  have nr: "\<not> retryable (wire E (nposts ?c1))" using w ok by (simp add: n1)
  have "post E ?p ?c1 = (Inr (Some (JObj kvs)), after 1 [Posted ?p] ?c1)"
    using post_first[OF nr, of ?p] w ok by (simp add: n1)
  moreover have "after 1 [Posted ?p] ?c1 = sent ?p c"
    by (simp add: after_def emit_def sent_def)
  ultimately show ?thesis
    by (simp add: json_rpc_def randint_def next_id_def Let_def unwrap_def e res)
qed

text \<open>
  C7. When \<^verbatim>\<open>_post\<close> returns a response whose decoded body is a JSON object,
  \<^verbatim>\<open>_json_rpc\<close> raises \<^verbatim>\<open>RPCError\<close> exactly when the object has an \<^verbatim>\<open>error\<close> field, and the
  exception carries the value of that field; otherwise it returns the value of the
  \<^verbatim>\<open>result\<close> field as it is (\<^verbatim>\<open>None\<close> when the object has no such field).
\<close>

theorem json_rpc_error_iff:
  assumes "delivered E (nposts c) = Response status (Some (JObj kvs))"
    and "\<not> (400 \<le> status \<and> status < 600)"
  shows "((\<exists>err. fst (json_rpc E service method args c) = Inl (RPCError err)) \<longleftrightarrow>
            ''error'' \<in> fst ` set kvs) \<and>
         (\<forall>err. map_of kvs ''error'' = Some err \<longrightarrow>
            fst (json_rpc E service method args c) = Inl (RPCError err)) \<and>
         (''error'' \<notin> fst ` set kvs \<longrightarrow>
            fst (json_rpc E service method args c) =
              Inr (case map_of kvs ''result'' of Some r \<Rightarrow> r | None \<Rightarrow> JNull))"
proof -
  obtain k evs where "json_rpc E service method args c =
       (case verdict (delivered E (nposts c)) of
          Inl exc \<Rightarrow> Inl exc
        | Inr None \<Rightarrow> Inl JSONDecodeError
        | Inr (Some resp) \<Rightarrow> fst (unwrap resp c),
        moved k evs c)"
    by (rule json_rpc_cases)
  then have r: "fst (json_rpc E service method args c) =
      (case map_of kvs ''error'' of
         Some err \<Rightarrow> Inl (RPCError err)
       | None \<Rightarrow> Inr (case map_of kvs ''result'' of Some r \<Rightarrow> r | None \<Rightarrow> JNull))"
    using assms by (simp add: unwrap_object)
  have dom: "''error'' \<in> fst ` set kvs \<longleftrightarrow> map_of kvs ''error'' \<noteq> None"
    by (simp add: map_of_eq_None_iff)
  show ?thesis
    unfolding r dom by (cases "map_of kvs ''error''") simp_all
qed

theorem json_rpc_error_iff_witness:
  "fst (json_rpc (scripted (script [Refused,
          Response 200 (Some (JObj [(''id'', JInt 42), (''error'', JObj [(''code'', JInt 200)])]))]))
        COMMON ''version'' [] bot) = Inl (RPCError (JObj [(''code'', JInt 200)])) \<and>
   fst (json_rpc (scripted (script [ok (JStr ''18.0'')])) COMMON ''version'' [] bot) =
     Inr (JStr ''18.0'')"
  using json_rpc_error_iff[of "scripted (script [Refused,
          Response 200 (Some (JObj [(''id'', JInt 42), (''error'', JObj [(''code'', JInt 200)])]))])"
          bot 200 "[(''id'', JInt 42), (''error'', JObj [(''code'', JInt 200)])]" COMMON "''version''" "[]"]
        json_rpc_error_iff[of "scripted (script [ok (JStr ''18.0'')])" bot 200
          "[(''jsonrpc'', JStr ''2.0''), (''id'', JInt 42), (''result'', JStr ''18.0'')]"
          COMMON "''version''" "[]"]
  by (simp add: delivered_def scripted_def script_def bot_def OdooClient_def ok_def)

section \<open>Session\<close>

lemma authenticate_answered:
  assumes "answers E (nposts c) r"
  shows "authenticate E c =
           (if isinstance_int r
            then (Inr r, emit [Logged INFO (Authenticated r)]
                           ((sent (authenticate_request c (next_id E c)) c)\<lparr>uid := r\<rparr>))
            else (Inl (AuthenticationError r), sent (authenticate_request c (next_id E c)) c))"
  by (simp add: authenticate_def authenticate_request_def json_rpc_answered[OF assms])

lemma answers_ok [simp]: "wire E n = ok r \<Longrightarrow> answers E n r"
  by (simp add: answers_def ok_def)

text \<open>
  C2. \<^verbatim>\<open>authenticate\<close> tests \<^verbatim>\<open>isinstance(result, int)\<close>, and \<^verbatim>\<open>bool\<close> is a subclass of
  \<^verbatim>\<open>int\<close>: when the remote service rejects the credentials by answering \<^verbatim>\<open>false\<close>, no
  \<^verbatim>\<open>AuthenticationError\<close> is raised; \<^verbatim>\<open>False\<close> is cached as the uid and returned.
\<close>

theorem authenticate_accepts_rejection:
  "fst (authenticate (scripted (script [ok (JBool False)])) bot) = Inr (JBool False) \<and>
   uid (snd (authenticate (scripted (script [ok (JBool False)])) bot)) = JBool False"
proof -
  have "answers (scripted (script [ok (JBool False)])) (nposts bot) (JBool False)"
    by (simp add: scripted_def script_def bot_def OdooClient_def)
  from authenticate_answered[OF this] show ?thesis
    by (simp add: emit_def)
qed

text \<open>
  What \<^verbatim>\<open>authenticate\<close> does with every other answer: a result that is neither an integer
  nor a boolean raises \<^verbatim>\<open>AuthenticationError\<close> and leaves the cached uid as it was; an
  integer or boolean is cached and returned.
\<close>

lemma authenticate_rejects_non_int:
  assumes "answers E (nposts c) r" and "\<not> isinstance_int r"
  shows "fst (authenticate E c) = Inl (AuthenticationError r)"
    and "uid (snd (authenticate E c)) = uid c"
  using assms by (simp_all add: authenticate_answered sent_def)

lemma authenticate_caches:
  assumes "answers E (nposts c) r" and "isinstance_int r"
  shows "fst (authenticate E c) = Inr r" and "uid (snd (authenticate E c)) = r"
  using assms by (simp_all add: authenticate_answered emit_def)

lemma moved_fields [simp]:
  "db (moved k evs c) = db c" "username (moved k evs c) = username c"
  "api_key (moved k evs c) = api_key c" "uid (moved k evs c) = uid c"
  "sess_open (moved k evs c) = sess_open c" "trace (moved k evs c) = trace c @ evs"
  "nposts (moved k evs c) = nposts c + k" "nrand (moved k evs c) = Suc (nrand c)"
  by (simp_all add: moved_def)

lemma emit_fields [simp]:
  "db (emit evs c) = db c" "username (emit evs c) = username c"
  "api_key (emit evs c) = api_key c" "uid (emit evs c) = uid c"
  "sess_open (emit evs c) = sess_open c" "trace (emit evs c) = trace c @ evs"
  "nposts (emit evs c) = nposts c" "nrand (emit evs c) = nrand c"
  by (simp_all add: emit_def)

lemma sent_fields [simp]:
  "db (sent p c) = db c" "username (sent p c) = username c"
  "api_key (sent p c) = api_key c" "uid (sent p c) = uid c"
  "sess_open (sent p c) = sess_open c"
  "trace (sent p c) = trace c @ [Logged DEBUG (Rpc_out p), Posted p]"
  "nposts (sent p c) = Suc (nposts c)" "nrand (sent p c) = Suc (nrand c)"
  by (simp_all add: sent_def)

lemma new_events_append [simp]: "trace c' = trace c @ evs \<Longrightarrow> new_events c c' = evs"
  by (simp add: new_events_def)

lemma authenticate_cases:
  fixes E c
  defines "p \<equiv> authenticate_request c (next_id E c)"
  obtains k evs where
    "(\<exists>exc. authenticate E c = (Inl exc, moved k evs c)) \<or>
     (\<exists>u. isinstance_int u \<and>
          authenticate E c =
            (Inr u, emit [Logged INFO (Authenticated u)] ((moved k evs c)\<lparr>uid := u\<rparr>)))"
    and "attempts evs = replicate k p" and "rpcs evs = [p]" and "1 \<le> k" and "k \<le> 3"
proof -
  obtain k evs where r: "json_rpc E COMMON ''authenticate''
        [JStr (db c), JStr (username c), JStr (api_key c), JObj []] c =
       (case verdict (delivered E (nposts c)) of
          Inl exc \<Rightarrow> Inl exc
        | Inr None \<Rightarrow> Inl JSONDecodeError
        | Inr (Some resp) \<Rightarrow> fst (unwrap resp c),
        moved k evs c)"
    and a: "attempts evs = replicate k p" and q: "rpcs evs = [p]" and k: "1 \<le> k" "k \<le> 3"
    unfolding p_def authenticate_request_def by (rule json_rpc_cases)
  have "(\<exists>exc. authenticate E c = (Inl exc, moved k evs c)) \<or>
     (\<exists>u. isinstance_int u \<and>
          authenticate E c =
            (Inr u, emit [Logged INFO (Authenticated u)] ((moved k evs c)\<lparr>uid := u\<rparr>)))"
    unfolding authenticate_def r
    by (cases "case verdict (delivered E (nposts c)) of
          Inl exc \<Rightarrow> Inl exc
        | Inr None \<Rightarrow> Inl JSONDecodeError
        | Inr (Some resp) \<Rightarrow> fst (unwrap resp c)") auto
  then show ?thesis
    using a q k by (rule that)
qed

lemma well_framed_envelope: "well_framed (envelope service method args (next_id E c))"
  using next_id_range[of E c]
  by (simp add: well_framed_def envelope_def jkeys_def jget_def args_of_def)

lemma envelope_parts [simp]:
  "service_of (envelope service method args ident) = JStr service"
  "method_of (envelope service method args ident) = JStr method"
  "args_of (envelope service method args ident) = args"
  by (simp_all add: envelope_def service_of_def method_of_def args_of_def jget_def)

text \<open>The requests of the two authenticated entry points.\<close>

lemma execute_kw_wire:
  "\<forall>p \<in> set (attempts (new_events c (snd (execute_kw E model method args kwargs c)))).
     wire_ok (snd (execute_kw E model method args kwargs c)) p"
proof (cases "uid c = JNull")
  case False
  obtain k evs where r: "snd (json_rpc E OBJECT ''execute_kw''
        [JStr (db c), uid c, JStr (api_key c), JStr model, JStr method, JList args, JObj kwargs] c)
        = moved k evs c"
    and a: "attempts evs = replicate k (envelope OBJECT ''execute_kw''
        [JStr (db c), uid c, JStr (api_key c), JStr model, JStr method, JList args, JObj kwargs]
        (next_id E c))"
    using json_rpc_cases[of E OBJECT "''execute_kw''" _ c] by (metis snd_conv)
  have "snd (execute_kw E model method args kwargs c) = moved k evs c"
    using False r by (simp add: execute_kw_def)
  then show ?thesis
    by (simp add: a wire_ok_def well_framed_envelope authenticated_call_def)
next
  case True
  obtain k evs where c: "(\<exists>exc. authenticate E c = (Inl exc, moved k evs c)) \<or>
     (\<exists>u. isinstance_int u \<and>
          authenticate E c =
            (Inr u, emit [Logged INFO (Authenticated u)] ((moved k evs c)\<lparr>uid := u\<rparr>)))"
    and a: "attempts evs = replicate k (authenticate_request c (next_id E c))"
    by (rule authenticate_cases)
  have auth: "wire_ok c' (authenticate_request c (next_id E c))" for c'
    by (simp add: wire_ok_def authenticate_request_def well_framed_envelope is_authenticate_def)
  from c show ?thesis
  proof
    assume "\<exists>exc. authenticate E c = (Inl exc, moved k evs c)"
    then have "snd (execute_kw E model method args kwargs c) = moved k evs c"
      using True by (auto simp: execute_kw_def)
    then show ?thesis by (simp add: a auth)
  next
    assume "\<exists>u. isinstance_int u \<and>
          authenticate E c =
            (Inr u, emit [Logged INFO (Authenticated u)] ((moved k evs c)\<lparr>uid := u\<rparr>))"
    then obtain u where u: "authenticate E c =
            (Inr u, emit [Logged INFO (Authenticated u)] ((moved k evs c)\<lparr>uid := u\<rparr>))" by blast
    define c1 where "c1 = emit [Logged INFO (Authenticated u)] ((moved k evs c)\<lparr>uid := u\<rparr>)"
    obtain k2 evs2 where r: "snd (json_rpc E OBJECT ''execute_kw''
        [JStr (db c1), uid c1, JStr (api_key c1), JStr model, JStr method, JList args, JObj kwargs] c1)
        = moved k2 evs2 c1"
      and a2: "attempts evs2 = replicate k2 (envelope OBJECT ''execute_kw''
        [JStr (db c1), uid c1, JStr (api_key c1), JStr model, JStr method, JList args, JObj kwargs]
        (next_id E c1))"
      using json_rpc_cases[of E OBJECT "''execute_kw''" _ c1] by (metis snd_conv)
    have s: "snd (execute_kw E model method args kwargs c) = moved k2 evs2 c1"
      using True u r by (simp add: execute_kw_def c1_def)
    have t: "trace (moved k2 evs2 c1) = trace c @ (evs @ [Logged INFO (Authenticated u)] @ evs2)"
      by (simp add: c1_def)
    have obj: "wire_ok (moved k2 evs2 c1) (envelope OBJECT ''execute_kw''
        [JStr (db c1), uid c1, JStr (api_key c1), JStr model, JStr method, JList args, JObj kwargs]
        (next_id E c1))"
      by (simp add: wire_ok_def well_framed_envelope authenticated_call_def)
    show ?thesis
      unfolding s new_events_append[OF t]
      using auth obj by (auto simp: a a2)
  qed
qed

lemma execute_kw_cached:
  assumes "uid c \<noteq> JNull"
  obtains k evs where
    "snd (execute_kw E model method args kwargs c) = moved k evs c"
    and "attempts evs = replicate k (execute_kw_request c model method args kwargs (next_id E c))"
    and "rpcs evs = [execute_kw_request c model method args kwargs (next_id E c)]"
    and "1 \<le> k" and "k \<le> 3"
proof -
  obtain k evs r where "json_rpc E OBJECT ''execute_kw''
        [JStr (db c), uid c, JStr (api_key c), JStr model, JStr method, JList args, JObj kwargs] c
        = (r, moved k evs c)"
    and a: "attempts evs = replicate k (execute_kw_request c model method args kwargs (next_id E c))"
    and q: "rpcs evs = [execute_kw_request c model method args kwargs (next_id E c)]"
    and k: "1 \<le> k" "k \<le> 3"
    unfolding execute_kw_request_def
    using json_rpc_cases[of E OBJECT "''execute_kw''" _ c] by metis
  then have "snd (execute_kw E model method args kwargs c) = moved k evs c"
    using assms by (simp add: execute_kw_def)
  then show ?thesis using a q k by (rule that)
qed

lemma execute_batch_cached:
  assumes "truthy (uid c)"
  obtains k evs where
    "snd (execute_batch E calls c) = moved k evs c"
    and "attempts evs = replicate k (envelope OBJECT ''execute''
           [JStr (db c), uid c, JStr (api_key c), JList calls] (next_id E c))"
    and "rpcs evs = [envelope OBJECT ''execute''
           [JStr (db c), uid c, JStr (api_key c), JList calls] (next_id E c)]"
    and "1 \<le> k" and "k \<le> 3"
proof -
  obtain k evs r where "json_rpc E OBJECT ''execute''
        [JStr (db c), uid c, JStr (api_key c), JList calls] c = (r, moved k evs c)"
    and a: "attempts evs = replicate k (envelope OBJECT ''execute''
           [JStr (db c), uid c, JStr (api_key c), JList calls] (next_id E c))"
    and q: "rpcs evs = [envelope OBJECT ''execute''
           [JStr (db c), uid c, JStr (api_key c), JList calls] (next_id E c)]"
    and k: "1 \<le> k" "k \<le> 3"
    using json_rpc_cases[of E OBJECT "''execute''" _ c] by metis
  then have "snd (execute_batch E calls c) = moved k evs c"
    using assms by (simp add: execute_batch_def)
  then show ?thesis using a q k by (rule that)
qed

lemma execute_batch_wire:
  "\<forall>p \<in> set (attempts (new_events c (snd (execute_batch E calls c)))).
     wire_ok (snd (execute_batch E calls c)) p"
proof (cases "truthy (uid c)")
  case True
  obtain k evs where s: "snd (execute_batch E calls c) = moved k evs c"
    and a: "attempts evs = replicate k (envelope OBJECT ''execute''
           [JStr (db c), uid c, JStr (api_key c), JList calls] (next_id E c))"
    using True by (rule execute_batch_cached)
  show ?thesis
    unfolding s by (simp add: a wire_ok_def well_framed_envelope authenticated_call_def)
next
  case False
  obtain k evs where c: "(\<exists>exc. authenticate E c = (Inl exc, moved k evs c)) \<or>
     (\<exists>u. isinstance_int u \<and>
          authenticate E c =
            (Inr u, emit [Logged INFO (Authenticated u)] ((moved k evs c)\<lparr>uid := u\<rparr>)))"
    and a: "attempts evs = replicate k (authenticate_request c (next_id E c))"
    by (rule authenticate_cases)
  have auth: "wire_ok c' (authenticate_request c (next_id E c))" for c'
    by (simp add: wire_ok_def authenticate_request_def well_framed_envelope is_authenticate_def)
  from c show ?thesis
  proof
    assume "\<exists>exc. authenticate E c = (Inl exc, moved k evs c)"
    then have "snd (execute_batch E calls c) = moved k evs c"
      using False by (auto simp: execute_batch_def)
    then show ?thesis by (simp add: a auth)
  next
    assume "\<exists>u. isinstance_int u \<and>
          authenticate E c =
            (Inr u, emit [Logged INFO (Authenticated u)] ((moved k evs c)\<lparr>uid := u\<rparr>))"
    then obtain u where u: "authenticate E c =
            (Inr u, emit [Logged INFO (Authenticated u)] ((moved k evs c)\<lparr>uid := u\<rparr>))" by blast
    define c1 where "c1 = emit [Logged INFO (Authenticated u)] ((moved k evs c)\<lparr>uid := u\<rparr>)"
    have u1: "uid c1 = u" by (simp add: c1_def)
    obtain k2 evs2 r where r: "json_rpc E OBJECT ''execute''
        [JStr (db c1), u, JStr (api_key c1), JList calls] c1 = (r, moved k2 evs2 c1)"
      and a2: "attempts evs2 = replicate k2 (envelope OBJECT ''execute''
        [JStr (db c1), u, JStr (api_key c1), JList calls] (next_id E c1))"
      using json_rpc_cases[of E OBJECT "''execute''" _ c1] by metis
    have s: "snd (execute_batch E calls c) = moved k2 evs2 c1"
      using False u r by (simp add: execute_batch_def c1_def)
    have t: "trace (moved k2 evs2 c1) = trace c @ (evs @ [Logged INFO (Authenticated u)] @ evs2)"
      by (simp add: c1_def)
    have obj: "wire_ok (moved k2 evs2 c1) (envelope OBJECT ''execute''
        [JStr (db c1), u, JStr (api_key c1), JList calls] (next_id E c1))"
      by (simp add: wire_ok_def well_framed_envelope authenticated_call_def u1)
    show ?thesis
      unfolding s new_events_append[OF t]
      using auth obj by (auto simp: a a2)
  qed
qed

lemma snd_convert:
  "snd (case x of (Inl exc, c1) \<Rightarrow> (Inl exc, c1) | (Inr r, c1) \<Rightarrow> (f r, c1)) = snd x"
  by (cases x; cases "fst x") auto

lemma facade_states:
  "snd (fields_get E model attributes c) =
     snd (execute_kw E model ''fields_get'' [JList []]
            [(''attributes'', JList (map JStr (or_empty attributes)))] c)"
  "snd (create E model values c) = snd (execute_kw E model ''create'' [JObj values] [] c)"
  "snd (read E model ids fields' c) =
     snd (execute_kw E model ''read''
            [JList (map JInt ids), JList (map JStr (or_empty fields'))] [] c)"
  "snd (update E model ids values c) =
     snd (execute_kw E model ''write'' [JList (map JInt ids), JObj values] [] c)"
  "snd (delete E model ids c) = snd (execute_kw E model ''unlink'' [JList (map JInt ids)] [] c)"
  "snd (search E model domain offset limit order c) =
     snd (execute_kw E model ''search''
            [JList (or_empty domain), JInt offset, opt_json JInt limit, opt_json JStr order] [] c)"
  "snd (search_read E model domain fields' offset limit order c) =
     snd (execute_kw E model ''search_read'' [JList (or_empty domain)]
            (search_read_opts fields' offset limit order) c)"
  "snd (search_count E model domain c) =
     snd (execute_kw E model ''search_count'' [JList (or_empty domain)] [] c)"
  "snd (read_group E model gfields groupby domain c) =
     snd (execute_kw E model ''read_group''
            [JList (or_empty domain), JList (map JStr gfields), JList (map JStr groupby)] [] c)"
  "snd (copy_record E model record_id defaults c) =
     snd (execute_kw E model ''copy'' [JList [JInt record_id], JObj (or_empty defaults)] [] c)"
  "snd (bulk_write E model id_vals_map c) =
     snd (execute_batch E (map (write_call model) id_vals_map) c)"
  by (simp_all add: fields_get_def create_def read_def update_def delete_def search_def
        search_read_def search_count_def read_group_def copy_record_def bulk_write_def snd_convert)

lemma perform_reduces:
  assumes "op \<noteq> Authenticate" and "op \<noteq> Version"
  shows "(\<exists>model method args kwargs.
            perform E op c = snd (execute_kw E model method args kwargs c)) \<or>
         (\<exists>calls. perform E op c = snd (execute_batch E calls c))"
  using assms by (cases op) (auto simp: facade_states)

lemma execute_kw_answered:
  assumes "uid c \<noteq> JNull" and "answers E (nposts c) r"
  shows "execute_kw E model method args kwargs c =
           (Inr r, sent (execute_kw_request c model method args kwargs (next_id E c)) c)"
  using assms(1) by (simp add: execute_kw_def execute_kw_request_def json_rpc_answered[OF assms(2)])

lemma execute_kw_login:
  assumes "uid c = JNull" and "answers E (nposts c) u" and "isinstance_int u"
    and "answers E (Suc (nposts c)) r"
  defines "c1 \<equiv> emit [Logged INFO (Authenticated u)]
                   ((sent (authenticate_request c (next_id E c)) c)\<lparr>uid := u\<rparr>)"
  shows "execute_kw E model method args kwargs c =
           (Inr r, sent (execute_kw_request c1 model method args kwargs (next_id E c1)) c1)"
proof -
  have n: "nposts c1 = Suc (nposts c)" by (simp add: c1_def)
  have "answers E (nposts c1) r" using assms(4) by (simp add: n)
  from json_rpc_answered[OF this] show ?thesis
    using assms(1,3)
    by (simp add: execute_kw_def authenticate_answered[OF assms(2)] execute_kw_request_def
          c1_def[symmetric])
qed

lemma execute_batch_answered:
  assumes "truthy (uid c)" and "answers E (nposts c) r"
  shows "execute_batch E calls c =
           (Inr r, sent (envelope OBJECT ''execute''
                           [JStr (db c), uid c, JStr (api_key c), JList calls] (next_id E c)) c)"
  using assms(1) by (simp add: execute_batch_def json_rpc_answered[OF assms(2)])

lemma execute_batch_login:
  assumes "\<not> truthy (uid c)" and "answers E (nposts c) u" and "isinstance_int u"
    and "answers E (Suc (nposts c)) r"
  defines "c1 \<equiv> emit [Logged INFO (Authenticated u)]
                   ((sent (authenticate_request c (next_id E c)) c)\<lparr>uid := u\<rparr>)"
  shows "execute_batch E calls c =
           (Inr r, sent (envelope OBJECT ''execute''
                           [JStr (db c1), u, JStr (api_key c1), JList calls] (next_id E c1)) c1)"
proof -
  have n: "nposts c1 = Suc (nposts c)" by (simp add: c1_def)
  have "answers E (nposts c1) r" using assms(4) by (simp add: n)
  from json_rpc_answered[OF this] show ?thesis
    using assms(1,3)
    by (simp add: execute_batch_def authenticate_answered[OF assms(2)] c1_def[symmetric])
qed

lemma perform_cached:
  assumes "op \<noteq> Authenticate" and "op \<noteq> Version" and "truthy (uid c)"
  obtains k evs p where "perform E op c = moved k evs c" and "attempts evs = replicate k p"
    and "rpcs evs = [p]" and "1 \<le> k" and "well_framed p" and "authenticated_call c p"
proof -
  have nn: "uid c \<noteq> JNull" using assms(3) by auto
  from perform_reduces[OF assms(1,2), of E c] show ?thesis
  proof (elim disjE exE)
    fix model meth args kwargs
    assume e: "perform E op c = snd (execute_kw E model meth args kwargs c)"
    obtain k evs where "snd (execute_kw E model meth args kwargs c) = moved k evs c"
      and "attempts evs = replicate k (execute_kw_request c model meth args kwargs (next_id E c))"
      and "rpcs evs = [execute_kw_request c model meth args kwargs (next_id E c)]"
      and "1 \<le> k"
      using nn by (rule execute_kw_cached)
    then show ?thesis
      using e
      by (intro that[of k evs "execute_kw_request c model meth args kwargs (next_id E c)"]) 
         (simp_all add: execute_kw_request_def well_framed_envelope authenticated_call_def)
  next
    fix calls
    assume e: "perform E op c = snd (execute_batch E calls c)"
    obtain k evs where "snd (execute_batch E calls c) = moved k evs c"
      and "attempts evs = replicate k (envelope OBJECT ''execute''
           [JStr (db c), uid c, JStr (api_key c), JList calls] (next_id E c))"
      and "rpcs evs = [envelope OBJECT ''execute''
           [JStr (db c), uid c, JStr (api_key c), JList calls] (next_id E c)]"
      and "1 \<le> k"
      using assms(3) by (rule execute_batch_cached)
    then show ?thesis
      using e
      by (intro that[of k evs "envelope OBJECT ''execute''
            [JStr (db c), uid c, JStr (api_key c), JList calls] (next_id E c)"]) 
         (simp_all add: well_framed_envelope authenticated_call_def)
  qed
qed

lemma next_id_request_id: "next_id E c = request_id E (nrand c)"
  by (simp add: next_id_def randint_def request_id_def)

lemma execute_kw_trips:
  obtains evs where "trace (snd (execute_kw E model meth args kwargs c)) = trace c @ evs"
    and "attempts evs \<noteq> []"
    and "uid c = JNull \<longrightarrow> hd (rpcs evs) = authenticate_request c (request_id E (nrand c))"
proof (cases "uid c = JNull")
  case False
  obtain k evs where "snd (execute_kw E model meth args kwargs c) = moved k evs c"
    and "attempts evs = replicate k (execute_kw_request c model meth args kwargs (next_id E c))"
    and "1 \<le> k"
    using False by (rule execute_kw_cached)
  then show ?thesis
    using False by (intro that[of evs]) auto
next
  case True
  obtain k evs where c: "(\<exists>exc. authenticate E c = (Inl exc, moved k evs c)) \<or>
     (\<exists>u. isinstance_int u \<and>
          authenticate E c =
            (Inr u, emit [Logged INFO (Authenticated u)] ((moved k evs c)\<lparr>uid := u\<rparr>)))"
    and a: "attempts evs = replicate k (authenticate_request c (next_id E c))"
    and q: "rpcs evs = [authenticate_request c (next_id E c)]" and k: "1 \<le> k"
    by (rule authenticate_cases)
  from c show ?thesis
  proof
    assume "\<exists>exc. authenticate E c = (Inl exc, moved k evs c)"
    then have "snd (execute_kw E model meth args kwargs c) = moved k evs c"
      using True by (auto simp: execute_kw_def)
    then show ?thesis
      using a q k by (intro that[of evs]) (auto simp: next_id_request_id)
  next
    assume "\<exists>u. isinstance_int u \<and>
          authenticate E c =
            (Inr u, emit [Logged INFO (Authenticated u)] ((moved k evs c)\<lparr>uid := u\<rparr>))"
    then obtain u where u: "authenticate E c =
            (Inr u, emit [Logged INFO (Authenticated u)] ((moved k evs c)\<lparr>uid := u\<rparr>))" by blast
    define c1 where "c1 = emit [Logged INFO (Authenticated u)] ((moved k evs c)\<lparr>uid := u\<rparr>)"
    obtain k2 evs2 r where r: "json_rpc E OBJECT ''execute_kw''
        [JStr (db c1), uid c1, JStr (api_key c1), JStr model, JStr meth, JList args, JObj kwargs] c1
        = (r, moved k2 evs2 c1)"
      using json_rpc_cases[of E OBJECT "''execute_kw''" _ c1] by metis
    have s: "snd (execute_kw E model meth args kwargs c) = moved k2 evs2 c1"
      using True u r by (simp add: execute_kw_def c1_def)
    have t: "trace c1 = trace c @ evs @ [Logged INFO (Authenticated u)]"
      by (simp add: c1_def)
    show ?thesis
      using a q k by (intro that[of "evs @ [Logged INFO (Authenticated u)] @ evs2"])
        (auto simp: s t next_id_request_id)
  qed
qed

lemma execute_batch_trips:
  obtains evs where "trace (snd (execute_batch E calls c)) = trace c @ evs"
    and "attempts evs \<noteq> []"
    and "\<not> truthy (uid c) \<longrightarrow> hd (rpcs evs) = authenticate_request c (request_id E (nrand c))"
proof (cases "truthy (uid c)")
  case True
  obtain k evs where "snd (execute_batch E calls c) = moved k evs c"
    and "attempts evs = replicate k (envelope OBJECT ''execute''
           [JStr (db c), uid c, JStr (api_key c), JList calls] (next_id E c))"
    and "1 \<le> k"
    using True by (rule execute_batch_cached)
  then show ?thesis
    using True by (intro that[of evs]) auto
next
  case False
  obtain k evs where c: "(\<exists>exc. authenticate E c = (Inl exc, moved k evs c)) \<or>
     (\<exists>u. isinstance_int u \<and>
          authenticate E c =
            (Inr u, emit [Logged INFO (Authenticated u)] ((moved k evs c)\<lparr>uid := u\<rparr>)))"
    and a: "attempts evs = replicate k (authenticate_request c (next_id E c))"
    and q: "rpcs evs = [authenticate_request c (next_id E c)]" and k: "1 \<le> k"
    by (rule authenticate_cases)
  from c show ?thesis
  proof
    assume "\<exists>exc. authenticate E c = (Inl exc, moved k evs c)"
    then have "snd (execute_batch E calls c) = moved k evs c"
      using False by (auto simp: execute_batch_def)
    then show ?thesis
      using a q k by (intro that[of evs]) (auto simp: next_id_request_id)
  next
    assume "\<exists>u. isinstance_int u \<and>
          authenticate E c =
            (Inr u, emit [Logged INFO (Authenticated u)] ((moved k evs c)\<lparr>uid := u\<rparr>))"
    then obtain u where u: "authenticate E c =
            (Inr u, emit [Logged INFO (Authenticated u)] ((moved k evs c)\<lparr>uid := u\<rparr>))" by blast
    define c1 where "c1 = emit [Logged INFO (Authenticated u)] ((moved k evs c)\<lparr>uid := u\<rparr>)"
    obtain k2 evs2 r where r: "json_rpc E OBJECT ''execute''
        [JStr (db c1), u, JStr (api_key c1), JList calls] c1 = (r, moved k2 evs2 c1)"
      using json_rpc_cases[of E OBJECT "''execute''" _ c1] by metis
    have s: "snd (execute_batch E calls c) = moved k2 evs2 c1"
      using False u r by (simp add: execute_batch_def c1_def)
    have t: "trace c1 = trace c @ evs @ [Logged INFO (Authenticated u)]"
      by (simp add: c1_def)
    show ?thesis
      using a q k by (intro that[of "evs @ [Logged INFO (Authenticated u)] @ evs2"])
        (auto simp: s t next_id_request_id)
  qed
qed

lemma execute_kw_after_login:
  assumes "uid c = JNull" and "answers E (nposts c) u" and "isinstance_int u"
  shows "length (rpcs (new_events c (snd (execute_kw E model meth args kwargs c)))) = 2 \<and>
         service_of (last (rpcs (new_events c (snd (execute_kw E model meth args kwargs c))))) =
           JStr OBJECT \<and>
         take 3 (args_of (last (rpcs (new_events c
                    (snd (execute_kw E model meth args kwargs c)))))) =
           [JStr (db c), u, JStr (api_key c)]"
proof -
  define c1 where "c1 = emit [Logged INFO (Authenticated u)]
      ((sent (authenticate_request c (next_id E c)) c)\<lparr>uid := u\<rparr>)"
  have au: "authenticate E c = (Inr u, c1)"
    using assms(3) by (simp add: authenticate_answered[OF assms(2)] c1_def)
  obtain k evs r where r: "json_rpc E OBJECT ''execute_kw''
        [JStr (db c1), uid c1, JStr (api_key c1), JStr model, JStr meth, JList args, JObj kwargs] c1
        = (r, moved k evs c1)"
    and q: "rpcs evs = [envelope OBJECT ''execute_kw''
        [JStr (db c1), uid c1, JStr (api_key c1), JStr model, JStr meth, JList args, JObj kwargs]
        (next_id E c1)]"
    using json_rpc_cases[of E OBJECT "''execute_kw''" _ c1] by metis
  have s: "snd (execute_kw E model meth args kwargs c) = moved k evs c1"
    using assms(1) by (simp add: execute_kw_def au r)
  have t: "trace c1 = trace c @ [Logged DEBUG (Rpc_out (authenticate_request c (next_id E c))),
                                 Posted (authenticate_request c (next_id E c)),
                                 Logged INFO (Authenticated u)]"
    and f: "db c1 = db c" "uid c1 = u" "api_key c1 = api_key c"
    by (simp_all add: c1_def)
  show ?thesis
    by (simp add: s t f q new_events_def)
qed

lemma execute_batch_after_login:
  assumes "\<not> truthy (uid c)" and "answers E (nposts c) u" and "isinstance_int u"
  shows "length (rpcs (new_events c (snd (execute_batch E calls c)))) = 2 \<and>
         service_of (last (rpcs (new_events c (snd (execute_batch E calls c))))) = JStr OBJECT \<and>
         take 3 (args_of (last (rpcs (new_events c (snd (execute_batch E calls c)))))) =
           [JStr (db c), u, JStr (api_key c)]"
proof -
  define c1 where "c1 = emit [Logged INFO (Authenticated u)]
      ((sent (authenticate_request c (next_id E c)) c)\<lparr>uid := u\<rparr>)"
  have au: "authenticate E c = (Inr u, c1)"
    using assms(3) by (simp add: authenticate_answered[OF assms(2)] c1_def)
  obtain k evs r where r: "json_rpc E OBJECT ''execute''
        [JStr (db c1), u, JStr (api_key c1), JList calls] c1 = (r, moved k evs c1)"
    and q: "rpcs evs = [envelope OBJECT ''execute''
        [JStr (db c1), u, JStr (api_key c1), JList calls] (next_id E c1)]"
    using json_rpc_cases[of E OBJECT "''execute''" _ c1] by metis
  have s: "snd (execute_batch E calls c) = moved k evs c1"
    using assms(1) by (simp add: execute_batch_def au r)
  have t: "trace c1 = trace c @ [Logged DEBUG (Rpc_out (authenticate_request c (next_id E c))),
                                 Posted (authenticate_request c (next_id E c)),
                                 Logged INFO (Authenticated u)]"
    and f: "db c1 = db c" "api_key c1 = api_key c"
    by (simp_all add: c1_def)
  show ?thesis
    by (simp add: s t f q new_events_def)
qed

lemma perform_after_login:
  assumes "op \<noteq> Authenticate" and "op \<noteq> Version" and "uid c = JNull"
    and "answers E (nposts c) u" and "isinstance_int u"
  shows "length (rpcs (new_events c (perform E op c))) = 2 \<and>
         service_of (last (rpcs (new_events c (perform E op c)))) = JStr OBJECT \<and>
         take 3 (args_of (last (rpcs (new_events c (perform E op c))))) =
           [JStr (db c), u, JStr (api_key c)]"
proof -
  have falsy: "\<not> truthy (uid c)" using assms(3) by simp
  from perform_reduces[OF assms(1,2), of E c] show ?thesis
  proof (elim disjE exE)
    fix model meth args kwargs
    assume "perform E op c = snd (execute_kw E model meth args kwargs c)"
    then show ?thesis
      using execute_kw_after_login[OF assms(3,4,5), of model meth args kwargs] by simp
  next
    fix calls
    assume "perform E op c = snd (execute_batch E calls c)"
    then show ?thesis
      using execute_batch_after_login[OF falsy assms(4,5), of calls] by simp
  qed
qed

lemma perform_login_trips:
  "(op = Authenticate \<longrightarrow>
      rpcs (new_events c (perform E op c)) = [authenticate_request c (request_id E (nrand c))] \<and>
      set (attempts (new_events c (perform E op c))) =
        {authenticate_request c (request_id E (nrand c))}) \<and>
   (op = Version \<longrightarrow>
      rpcs (new_events c (perform E op c)) = [envelope COMMON ''version'' [] (request_id E (nrand c))] \<and>
      set (attempts (new_events c (perform E op c))) =
        {envelope COMMON ''version'' [] (request_id E (nrand c))})"
proof -
  have login: "rpcs (new_events c (perform E op c)) =
      [authenticate_request c (request_id E (nrand c))] \<and>
      set (attempts (new_events c (perform E op c))) =
        {authenticate_request c (request_id E (nrand c))}"
    if op: "op = Authenticate"
  proof -
    obtain k evs where c: "(\<exists>exc. authenticate E c = (Inl exc, moved k evs c)) \<or>
       (\<exists>u. isinstance_int u \<and>
            authenticate E c =
              (Inr u, emit [Logged INFO (Authenticated u)] ((moved k evs c)\<lparr>uid := u\<rparr>)))"
      and a: "attempts evs = replicate k (authenticate_request c (next_id E c))"
      and q: "rpcs evs = [authenticate_request c (next_id E c)]" and k: "1 \<le> k"
      by (rule authenticate_cases)
    from c k show ?thesis
      by (auto simp: op a q next_id_request_id)
  qed
  have about: "rpcs (new_events c (perform E op c)) =
      [envelope COMMON ''version'' [] (request_id E (nrand c))] \<and>
      set (attempts (new_events c (perform E op c))) =
        {envelope COMMON ''version'' [] (request_id E (nrand c))}"
    if op: "op = Version"
  proof -
    obtain k evs r where "json_rpc E COMMON ''version'' [] c = (r, moved k evs c)"
      and "attempts evs = replicate k (envelope COMMON ''version'' [] (next_id E c))"
      and "rpcs evs = [envelope COMMON ''version'' [] (next_id E c)]" and "1 \<le> k"
      using json_rpc_cases[of E COMMON "''version''" "[]" c] by metis
    then show ?thesis
      by (auto simp: op version_def next_id_request_id)
  qed
  show ?thesis using login about by blast
qed

lemma perform_posts:
  "attempts (new_events c (perform E op c)) \<noteq> [] \<and>
   (op \<noteq> Authenticate \<and> op \<noteq> Version \<and> uid c = JNull \<longrightarrow>
      hd (rpcs (new_events c (perform E op c))) = authenticate_request c (request_id E (nrand c)))"
proof (cases "op = Authenticate \<or> op = Version")
  case True
  then have "set (attempts (new_events c (perform E op c))) \<noteq> {}"
    using perform_login_trips[of op c E] by auto
  then show ?thesis using True by auto
next
  case False
  then have "op \<noteq> Authenticate" and "op \<noteq> Version" by auto
  from perform_reduces[OF this, of E c] show ?thesis
  proof (elim disjE exE)
    fix model meth args kwargs
    assume e: "perform E op c = snd (execute_kw E model meth args kwargs c)"
    obtain evs where "trace (snd (execute_kw E model meth args kwargs c)) = trace c @ evs"
      and "attempts evs \<noteq> []"
      and "uid c = JNull \<longrightarrow> hd (rpcs evs) = authenticate_request c (request_id E (nrand c))"
      by (rule execute_kw_trips)
    then show ?thesis by (simp add: e)
  next
    fix calls
    assume e: "perform E op c = snd (execute_batch E calls c)"
    obtain evs where "trace (snd (execute_batch E calls c)) = trace c @ evs"
      and "attempts evs \<noteq> []"
      and "\<not> truthy (uid c) \<longrightarrow> hd (rpcs evs) = authenticate_request c (request_id E (nrand c))"
      by (rule execute_batch_trips)
    then show ?thesis by (auto simp: e)
  qed
qed

lemma wire_protocol_bound:
  "(\<forall>p \<in> set (attempts (new_events c (perform E op c))).
      well_framed p \<and>
      (if op = Authenticate then is_authenticate p
       else if op = Version then is_version p
       else is_authenticate p \<or> authenticated_call (perform E op c) p)) \<and>
   (op \<noteq> Authenticate \<and> op \<noteq> Version \<and> truthy (uid c) \<longrightarrow>
      attempts (new_events c (perform E op c)) \<noteq> [] \<and>
      (\<forall>p \<in> set (attempts (new_events c (perform E op c))). authenticated_call c p))"
proof -
  have A: "well_framed p \<and>
      (if op = Authenticate then is_authenticate p
       else if op = Version then is_version p
       else is_authenticate p \<or> authenticated_call (perform E op c) p)"
    if p: "p \<in> set (attempts (new_events c (perform E op c)))" for p
  proof (cases "op = Authenticate \<or> op = Version")
    case False
    then have "wire_ok (perform E op c) p"
      using perform_reduces[of op E c] execute_kw_wire[of c E] execute_batch_wire[of c E] p
      by (metis (no_types, lifting))
    then show ?thesis using False by (simp add: wire_ok_def)
  next
    case True
    then show ?thesis
    proof
      assume op: "op = Authenticate"
      obtain k evs where c: "(\<exists>exc. authenticate E c = (Inl exc, moved k evs c)) \<or>
         (\<exists>u. isinstance_int u \<and>
              authenticate E c =
                (Inr u, emit [Logged INFO (Authenticated u)] ((moved k evs c)\<lparr>uid := u\<rparr>)))"
        and a: "attempts evs = replicate k (authenticate_request c (next_id E c))"
        by (rule authenticate_cases)
      from c have "attempts (new_events c (snd (authenticate E c))) =
          replicate k (authenticate_request c (next_id E c))"
        by (auto simp: a)
      then show ?thesis
        using p op
        by (auto simp: authenticate_request_def well_framed_envelope is_authenticate_def)
    next
      assume op: "op = Version"
      obtain k evs r where "json_rpc E COMMON ''version'' [] c = (r, moved k evs c)"
        and a: "attempts evs = replicate k (envelope COMMON ''version'' [] (next_id E c))"
        using json_rpc_cases[of E COMMON "''version''" "[]" c] by metis
      then have "attempts (new_events c (snd (version E c))) =
          replicate k (envelope COMMON ''version'' [] (next_id E c))"
        by (simp add: version_def)
      then show ?thesis
        using p op by (auto simp: well_framed_envelope is_version_def)
    qed
  qed
  have B: "attempts (new_events c (perform E op c)) \<noteq> [] \<and>
      (\<forall>p \<in> set (attempts (new_events c (perform E op c))). authenticated_call c p)"
    if h: "op \<noteq> Authenticate \<and> op \<noteq> Version \<and> truthy (uid c)"
  proof -
    from h obtain k evs q where "perform E op c = moved k evs c" "attempts evs = replicate k q"
      "1 \<le> k" "authenticated_call c q"
      using perform_cached[of op c E] by metis
    then show ?thesis by auto
  qed
  show ?thesis using A B by blast
qed

text \<open>
  C8. Every operation of the client posts at least one request, and every request that
  it posts is a JSON object with the fields \<^verbatim>\<open>jsonrpc = "2.0"\<close>, \<^verbatim>\<open>method = "call"\<close>,
  \<^verbatim>\<open>params = {service, method, args}\<close> and an integer \<^verbatim>\<open>id\<close> (from 1 to 1000000).
  \<^verbatim>\<open>authenticate\<close> and \<^verbatim>\<open>version\<close> make one round trip each, to the \<^verbatim>\<open>common\<close> namespace, with
  the payloads written out below. Every other operation posts, after the authentication
  call of its lazy login if there is one (there is one when no uid is cached), to the
  \<^verbatim>\<open>object\<close> namespace with the database name, the cached uid and the secret as the first
  three arguments; with a cached (truthy) uid it makes one round trip and posts nothing
  else, and with no cached uid and a login that the remote answers with the uid \<open>u\<close> it
  makes two round trips, the second one to the \<^verbatim>\<open>object\<close> namespace with \<open>u\<close>.
\<close>

theorem wire_protocol:
  "(\<forall>p \<in> set (attempts (new_events c (perform E op c))).
      well_framed p \<and>
      (if op = Authenticate then is_authenticate p
       else if op = Version then is_version p
       else is_authenticate p \<or> authenticated_call (perform E op c) p)) \<and>
   (op \<noteq> Authenticate \<and> op \<noteq> Version \<and> truthy (uid c) \<longrightarrow>
      attempts (new_events c (perform E op c)) \<noteq> [] \<and>
      (\<forall>p \<in> set (attempts (new_events c (perform E op c))). authenticated_call c p)) \<and>
   attempts (new_events c (perform E op c)) \<noteq> [] \<and>
   (op = Authenticate \<longrightarrow>
      rpcs (new_events c (perform E op c)) =
        [JObj [(''jsonrpc'', JStr ''2.0''),
                     (''method'', JStr ''call''),
                     (''params'',
                      JObj [(''service'', JStr ''common''),
                            (''method'', JStr ''authenticate''),
                            (''args'', JList [JStr (db c), JStr (username c), JStr (api_key c),
                                              JObj []])]),
                     (''id'', JInt (request_id E (nrand c)))]] \<and>
      set (attempts (new_events c (perform E op c))) =
        {JObj [(''jsonrpc'', JStr ''2.0''),
                     (''method'', JStr ''call''),
                     (''params'',
                      JObj [(''service'', JStr ''common''),
                            (''method'', JStr ''authenticate''),
                            (''args'', JList [JStr (db c), JStr (username c), JStr (api_key c),
                                              JObj []])]),
                     (''id'', JInt (request_id E (nrand c)))]}) \<and>
   (op = Version \<longrightarrow>
      rpcs (new_events c (perform E op c)) =
        [JObj [(''jsonrpc'', JStr ''2.0''),
                     (''method'', JStr ''call''),
                     (''params'',
                      JObj [(''service'', JStr ''common''),
                            (''method'', JStr ''version''),
                            (''args'', JList [])]),
                     (''id'', JInt (request_id E (nrand c)))]] \<and>
      set (attempts (new_events c (perform E op c))) =
        {JObj [(''jsonrpc'', JStr ''2.0''),
                     (''method'', JStr ''call''),
                     (''params'',
                      JObj [(''service'', JStr ''common''),
                            (''method'', JStr ''version''),
                            (''args'', JList [])]),
                     (''id'', JInt (request_id E (nrand c)))]}) \<and>
   (op \<noteq> Authenticate \<and> op \<noteq> Version \<and> truthy (uid c) \<longrightarrow>
      length (rpcs (new_events c (perform E op c))) = 1) \<and>
   (op \<noteq> Authenticate \<and> op \<noteq> Version \<and> uid c = JNull \<and>
    answers E (nposts c) u \<and> isinstance_int u \<longrightarrow>
      length (rpcs (new_events c (perform E op c))) = 2 \<and>
      service_of (last (rpcs (new_events c (perform E op c)))) = JStr ''object'' \<and>
      take 3 (args_of (last (rpcs (new_events c (perform E op c))))) =
        [JStr (db c), u, JStr (api_key c)]) \<and>
   (op \<noteq> Authenticate \<and> op \<noteq> Version \<and> uid c = JNull \<longrightarrow>
      hd (rpcs (new_events c (perform E op c))) =
        JObj [(''jsonrpc'', JStr ''2.0''),
                    (''method'', JStr ''call''),
                    (''params'',
                     JObj [(''service'', JStr ''common''),
                           (''method'', JStr ''authenticate''),
                           (''args'', JList [JStr (db c), JStr (username c), JStr (api_key c),
                                             JObj []])]),
                    (''id'', JInt (request_id E (nrand c)))])"
proof -
  have one: "length (rpcs (new_events c (perform E op c))) = 1"
    if "op \<noteq> Authenticate \<and> op \<noteq> Version \<and> truthy (uid c)"
  proof -
    from that have "op \<noteq> Authenticate" and "op \<noteq> Version" and "truthy (uid c)"
      by auto
    then obtain k evs p where "perform E op c = moved k evs c" and "rpcs evs = [p]"
      using perform_cached[of op c E] by metis
    then show ?thesis by simp
  qed
  have auth: "authenticate_request c (request_id E (nrand c)) =
      JObj [(''jsonrpc'', JStr ''2.0''),
                  (''method'', JStr ''call''),
                  (''params'',
                   JObj [(''service'', JStr ''common''),
                         (''method'', JStr ''authenticate''),
                         (''args'', JList [JStr (db c), JStr (username c), JStr (api_key c),
                                           JObj []])]),
                  (''id'', JInt (request_id E (nrand c)))]"
    by (simp add: authenticate_request_def envelope_def)
  have ver: "envelope COMMON ''version'' [] (request_id E (nrand c)) =
      JObj [(''jsonrpc'', JStr ''2.0''),
                  (''method'', JStr ''call''),
                  (''params'',
                   JObj [(''service'', JStr ''common''),
                         (''method'', JStr ''version''),
                         (''args'', JList [])]),
                  (''id'', JInt (request_id E (nrand c)))]"
    by (simp add: envelope_def)
  show ?thesis
    using wire_protocol_bound[of c E op] perform_posts[of c E op]
      perform_login_trips[of op c E] one perform_after_login[of op c E u]
    unfolding auth ver by blast
qed

lemma next_id_scripted [simp]: "next_id (scripted w) c = 1 + int (41 + nrand c) mod 1000000"
  by (simp add: next_id_def randint_def scripted_def)

lemma request_id_scripted [simp]: "request_id (scripted w) k = 1 + int (41 + k) mod 1000000"
  by (simp add: request_id_def scripted_def)

lemma wire_scripted [simp]: "wire (scripted w) = w"
  by (simp add: scripted_def)

lemma bot_fields [simp]:
  "db bot = ''my''" "username bot = ''bot@example.com''" "api_key bot = ''secret''"
  "uid bot = JNull" "nposts bot = 0" "nrand bot = 0" "trace bot = []" "sess_open bot"
  by (simp_all add: bot_def OdooClient_def)

lemma bot7_fields [simp]:
  "db bot7 = ''my''" "username bot7 = ''bot@example.com''" "api_key bot7 = ''secret''"
  "uid bot7 = JInt 7" "nposts bot7 = 0" "nrand bot7 = 0" "trace bot7 = []" "sess_open bot7"
  by (simp_all add: bot7_def)

lemma int_ascii_examples:
  "int_ascii ''12'' = Some 12" "int_ascii '' -1_000 '' = Some (- 1000)"
  "int_ascii ''007'' = Some 7" "int_ascii ''4 2'' = None" "int_ascii ''1__0'' = None"
  "int_ascii ''12.0'' = None" "int_ascii [] = None"
  by (simp_all add: int_ascii_def strip_def is_space_def digit_of_def)

lemma create_numeric_string:
  "fst (create (scripted (script [ok (JStr ''12'')])) PROJECT_MODEL [(''name'', JStr ''Root'')] bot7) =
     Inr 12"
proof -
  have "answers (scripted (script [ok (JStr ''12'')])) (nposts bot7) (JStr ''12'')"
    by (simp add: script_def)
  then have "execute_kw (scripted (script [ok (JStr ''12'')])) PROJECT_MODEL ''create''
        [JObj [(''name'', JStr ''Root'')]] [] bot7 =
      (Inr (JStr ''12''),
       sent (execute_kw_request bot7 PROJECT_MODEL ''create'' [JObj [(''name'', JStr ''Root'')]] []
               (next_id (scripted (script [ok (JStr ''12'')])) bot7)) bot7)"
    by (intro execute_kw_answered) simp_all
  then show ?thesis
    by (simp add: create_def scripted_def int_ascii_examples)
qed

theorem wire_protocol_witness:
  "attempts (new_events bot
      (perform (scripted (script [ok (JInt 7), ok (JInt 12)]))
         (Create PROJECT_MODEL [(''name'', JStr ''LLM Playground'')]) bot)) =
     [JObj [(''jsonrpc'', JStr ''2.0''), (''method'', JStr ''call''),
           (''params'',
            JObj [(''service'', JStr ''common''), (''method'', JStr ''authenticate''),
                  (''args'', JList [JStr ''my'', JStr ''bot@example.com'', JStr ''secret'',
                                    JObj []])]),
           (''id'', JInt 42)],
      JObj [(''jsonrpc'', JStr ''2.0''), (''method'', JStr ''call''),
           (''params'',
            JObj [(''service'', JStr ''object''), (''method'', JStr ''execute_kw''),
                  (''args'', JList [JStr ''my'', JInt 7, JStr ''secret'',
                                    JStr ''project.project'', JStr ''create'',
                                    JList [JObj [(''name'', JStr ''LLM Playground'')]],
                                    JObj []])]),
           (''id'', JInt 43)]] \<and>
   well_framed
     (JObj [(''jsonrpc'', JStr ''2.0''), (''method'', JStr ''call''),
           (''params'',
            JObj [(''service'', JStr ''common''), (''method'', JStr ''authenticate''),
                  (''args'', JList [JStr ''my'', JStr ''bot@example.com'', JStr ''secret'',
                                    JObj []])]),
           (''id'', JInt 42)]) \<and>
   well_framed
     (JObj [(''jsonrpc'', JStr ''2.0''), (''method'', JStr ''call''),
           (''params'',
            JObj [(''service'', JStr ''object''), (''method'', JStr ''execute_kw''),
                  (''args'', JList [JStr ''my'', JInt 7, JStr ''secret'',
                                    JStr ''project.project'', JStr ''create'',
                                    JList [JObj [(''name'', JStr ''LLM Playground'')]],
                                    JObj []])]),
           (''id'', JInt 43)]) \<and>
   attempts (new_events bot7
      (perform (scripted (script [ok (JBool True)]))
         (Update TASK_MODEL [5] [(''name'', JStr ''Root'')]) bot7)) =
     [JObj [(''jsonrpc'', JStr ''2.0''), (''method'', JStr ''call''),
           (''params'',
            JObj [(''service'', JStr ''object''), (''method'', JStr ''execute_kw''),
                  (''args'', JList [JStr ''my'', JInt 7, JStr ''secret'',
                                    JStr ''project.task'', JStr ''write'',
                                    JList [JList [JInt 5], JObj [(''name'', JStr ''Root'')]],
                                    JObj []])]),
           (''id'', JInt 42)]] \<and>
   authenticated_call bot7
     (JObj [(''jsonrpc'', JStr ''2.0''), (''method'', JStr ''call''),
           (''params'',
            JObj [(''service'', JStr ''object''), (''method'', JStr ''execute_kw''),
                  (''args'', JList [JStr ''my'', JInt 7, JStr ''secret'',
                                    JStr ''project.task'', JStr ''write'',
                                    JList [JList [JInt 5], JObj [(''name'', JStr ''Root'')]],
                                    JObj []])]),
           (''id'', JInt 42)]) \<and>
   rpcs (new_events bot
      (perform (scripted (script [ok (JObj [(''server_version'', JStr ''18.0'')])])) Version bot)) =
     [JObj [(''jsonrpc'', JStr ''2.0''), (''method'', JStr ''call''),
           (''params'',
            JObj [(''service'', JStr ''common''), (''method'', JStr ''version''),
                  (''args'', JList [])]),
           (''id'', JInt 42)]] \<and>
   set (attempts (new_events bot
      (perform (scripted (script [ok (JObj [(''server_version'', JStr ''18.0'')])])) Version bot))) =
     {JObj [(''jsonrpc'', JStr ''2.0''), (''method'', JStr ''call''),
           (''params'',
            JObj [(''service'', JStr ''common''), (''method'', JStr ''version''),
                  (''args'', JList [])]),
           (''id'', JInt 42)]} \<and>
   rpcs (new_events bot (perform (scripted (script [Refused, ok (JInt 7)])) Authenticate bot)) =
     [JObj [(''jsonrpc'', JStr ''2.0''), (''method'', JStr ''call''),
           (''params'',
            JObj [(''service'', JStr ''common''), (''method'', JStr ''authenticate''),
                  (''args'', JList [JStr ''my'', JStr ''bot@example.com'', JStr ''secret'',
                                    JObj []])]),
           (''id'', JInt 42)]] \<and>
   set (attempts (new_events bot
      (perform (scripted (script [Refused, ok (JInt 7)])) Authenticate bot))) =
     {JObj [(''jsonrpc'', JStr ''2.0''), (''method'', JStr ''call''),
           (''params'',
            JObj [(''service'', JStr ''common''), (''method'', JStr ''authenticate''),
                  (''args'', JList [JStr ''my'', JStr ''bot@example.com'', JStr ''secret'',
                                    JObj []])]),
           (''id'', JInt 42)]}"
proof -
  let ?E = "scripted (script [ok (JInt 7), ok (JInt 12)])"
  let ?F = "scripted (script [ok (JBool True)])"
  have a: "execute_kw ?E PROJECT_MODEL ''create'' [JObj [(''name'', JStr ''LLM Playground'')]] [] bot =
      (Inr (JInt 12),
       sent (envelope OBJECT ''execute_kw''
               [JStr ''my'', JInt 7, JStr ''secret'', JStr PROJECT_MODEL, JStr ''create'',
                JList [JObj [(''name'', JStr ''LLM Playground'')]], JObj []] 43)
         (emit [Logged INFO (Authenticated (JInt 7))]
            ((sent (envelope COMMON ''authenticate''
                      [JStr ''my'', JStr ''bot@example.com'', JStr ''secret'', JObj []] 42)
                bot)\<lparr>uid := JInt 7\<rparr>)))"
    using execute_kw_login[of bot ?E "JInt 7" "JInt 12"]
    by (simp add: script_def execute_kw_request_def authenticate_request_def)
  have b: "execute_kw ?F TASK_MODEL ''write'' [JList [JInt 5], JObj [(''name'', JStr ''Root'')]] [] bot7 =
      (Inr (JBool True),
       sent (envelope OBJECT ''execute_kw''
               [JStr ''my'', JInt 7, JStr ''secret'', JStr TASK_MODEL, JStr ''write'',
                JList [JList [JInt 5], JObj [(''name'', JStr ''Root'')]], JObj []] 42) bot7)"
    using execute_kw_answered[of bot7 ?F "JBool True"]
    by (simp add: script_def execute_kw_request_def)
  show ?thesis
    using wire_protocol[of bot ?E "Create PROJECT_MODEL [(''name'', JStr ''LLM Playground'')]"
            "JInt 7"]
          wire_protocol[of bot7 ?F "Update TASK_MODEL [5] [(''name'', JStr ''Root'')]"]
          wire_protocol[of bot "scripted (script [ok (JObj [(''server_version'', JStr ''18.0'')])])"
            Version]
          wire_protocol[of bot "scripted (script [Refused, ok (JInt 7)])" Authenticate]
    by (simp add: create_def update_def a b is_authenticate_def envelope_def)
qed

text \<open>
  C3. \<^verbatim>\<open>execute_kw\<close> authenticates when the cached uid \<^verbatim>\<open>is None\<close>; \<^verbatim>\<open>execute_batch\<close>
  authenticates when the cached uid is falsy (\<^verbatim>\<open>self.uid or self.authenticate()\<close>). On a
  server that answers every call with \<^verbatim>\<open>false\<close>, the first \<^verbatim>\<open>execute_batch\<close> caches the
  uid \<^verbatim>\<open>False\<close>, and a second \<^verbatim>\<open>execute_batch\<close> invokes \<^verbatim>\<open>authenticate\<close> again although the
  cached uid is set, while \<^verbatim>\<open>execute_kw\<close> in the same state does not.
\<close>

theorem execute_batch_reauthenticates:
  "uid (perform (scripted (always (ok (JBool False)))) (Execute_batch []) bot) = JBool False \<and>
   rpcs (new_events (perform (scripted (always (ok (JBool False)))) (Execute_batch []) bot)
          (perform_all (scripted (always (ok (JBool False)))) [Execute_batch [], Execute_batch []] bot)) =
     [envelope COMMON ''authenticate''
        [JStr ''my'', JStr ''bot@example.com'', JStr ''secret'', JObj []] 44,
      envelope OBJECT ''execute'' [JStr ''my'', JBool False, JStr ''secret'', JList []] 45] \<and>
   rpcs (new_events (perform (scripted (always (ok (JBool False)))) (Execute_batch []) bot)
          (perform_all (scripted (always (ok (JBool False))))
             [Execute_batch [], Execute_kw ''res.partner'' ''search'' [JList []] []] bot)) =
     [envelope OBJECT ''execute_kw''
        [JStr ''my'', JBool False, JStr ''secret'', JStr ''res.partner'', JStr ''search'',
         JList [JList []], JObj []] 44]"
proof -
  let ?E = "scripted (always (ok (JBool False)))"
  have w: "answers ?E n (JBool False)" for n by (simp add: always_def)
  define c1 where "c1 = sent (envelope OBJECT ''execute''
        [JStr ''my'', JBool False, JStr ''secret'', JList []] 43)
      (emit [Logged INFO (Authenticated (JBool False))]
         ((sent (envelope COMMON ''authenticate''
                   [JStr ''my'', JStr ''bot@example.com'', JStr ''secret'', JObj []] 42)
             bot)\<lparr>uid := JBool False\<rparr>))"
  have f1 [simp]: "db c1 = ''my''" "username c1 = ''bot@example.com''" "api_key c1 = ''secret''"
    "uid c1 = JBool False" "nrand c1 = 2"
    by (simp_all add: c1_def)
  have a: "execute_batch ?E [] bot = (Inr (JBool False), c1)"
    using execute_batch_login[of bot ?E "JBool False" "JBool False" "[]"] w
    by (simp add: authenticate_request_def c1_def)
  have b: "execute_batch ?E [] c1 =
      (Inr (JBool False),
       sent (envelope OBJECT ''execute'' [JStr ''my'', JBool False, JStr ''secret'', JList []] 45)
         (emit [Logged INFO (Authenticated (JBool False))]
            ((sent (envelope COMMON ''authenticate''
                      [JStr ''my'', JStr ''bot@example.com'', JStr ''secret'', JObj []] 44)
                c1)\<lparr>uid := JBool False\<rparr>)))"
    using execute_batch_login[of c1 ?E "JBool False" "JBool False" "[]"] w
    by (simp add: authenticate_request_def)
  have k: "execute_kw ?E ''res.partner'' ''search'' [JList []] [] c1 =
      (Inr (JBool False),
       sent (envelope OBJECT ''execute_kw''
        [JStr ''my'', JBool False, JStr ''secret'', JStr ''res.partner'', JStr ''search'',
         JList [JList []], JObj []] 44) c1)"
    using execute_kw_answered[of c1 ?E "JBool False"] w
    by (simp add: execute_kw_request_def)
  show ?thesis
    by (simp add: a b k)
qed

section \<open>Batch\<close>

text \<open>The same call on a client that has to log in first.\<close>

lemma bulk_write_after_login:
  assumes "\<not> truthy (uid c)" and "answers E (nposts c) u" and "isinstance_int u"
    and "answers E (Suc (nposts c)) r"
  shows "fst (bulk_write E model id_vals_map c) = Inr r"
    and "rpcs (new_events c (snd (bulk_write E model id_vals_map c))) =
           [authenticate_request c (request_id E (nrand c)),
            batch_request (c\<lparr>uid := u\<rparr>) (map (write_call model) id_vals_map)
              (request_id E (Suc (nrand c)))]"
  using execute_batch_login[OF assms, of "map (write_call model) id_vals_map"]
  by (simp_all add: bulk_write_def batch_request_def next_id_request_id)

text \<open>
  C4. On a client with a cached uid, \<^verbatim>\<open>bulk_write\<close> makes exactly one round trip, whatever
  the transport does: the batch call, whose payload holds one \<^verbatim>\<open>write\<close> call per entry of
  the mapping, in the order of the entries, each with the single record id and its
  values. It returns the result of the server as it is; when the server answers with
  one result per call, the returned list has as many elements as the mapping has entries.
\<close>

theorem bulk_write_one_round_trip:
  assumes "truthy (uid c)"
  shows "(let calls = map (write_call model) id_vals_map;
              request = batch_request c calls (request_id E (nrand c))
          in rpcs (new_events c (snd (bulk_write E model id_vals_map c))) = [request] \<and>
             length calls = length id_vals_map \<and>
             (\<forall>i < length id_vals_map.
                calls ! i =
                  JObj [(''model'', JStr model), (''method'', JStr ''write''),
                        (''args'', JList [JList [JInt (fst (id_vals_map ! i))],
                                          JObj (snd (id_vals_map ! i))]),
                        (''kwargs'', JObj [])]) \<and>
             (\<forall>r. answers E (nposts c) r \<longrightarrow>
                bulk_write E model id_vals_map c = (Inr r, sent request c)) \<and>
             (\<forall>results. answers E (nposts c) (JList results) \<and> length results = length calls \<longrightarrow>
                (\<exists>rs. fst (bulk_write E model id_vals_map c) = Inr (JList rs) \<and>
                      length rs = length id_vals_map)))"
proof -
  let ?calls = "map (write_call model) id_vals_map"
  obtain k evs where s: "snd (execute_batch E ?calls c) = moved k evs c"
    and q: "rpcs evs = [envelope OBJECT ''execute''
           [JStr (db c), uid c, JStr (api_key c), JList ?calls] (next_id E c)]"
    using assms by (rule execute_batch_cached)
  have one: "rpcs (new_events c (snd (bulk_write E model id_vals_map c))) =
      [batch_request c ?calls (request_id E (nrand c))]"
    by (simp add: bulk_write_def s q batch_request_def next_id_request_id)
  have ans: "bulk_write E model id_vals_map c =
      (Inr r, sent (batch_request c ?calls (request_id E (nrand c))) c)"
    if "answers E (nposts c) r" for r
    using execute_batch_answered[OF assms that, of ?calls]
    by (simp add: bulk_write_def batch_request_def next_id_request_id)
  show ?thesis
    unfolding Let_def
    using one ans by (auto simp: write_call_def)
qed

theorem bulk_write_one_round_trip_witness:
  "bulk_write (scripted (script [ok (JList [JBool True, JBool True])])) TASK_MODEL
       [(1, [(''a'', JInt 1)]), (2, [(''b'', JInt 2)])] bot7 =
     (Inr (JList [JBool True, JBool True]),
      sent (envelope OBJECT ''execute''
              [JStr ''my'', JInt 7, JStr ''secret'',
               JList [JObj [(''model'', JStr TASK_MODEL), (''method'', JStr ''write''),
                            (''args'', JList [JList [JInt 1], JObj [(''a'', JInt 1)]]),
                            (''kwargs'', JObj [])],
                      JObj [(''model'', JStr TASK_MODEL), (''method'', JStr ''write''),
                            (''args'', JList [JList [JInt 2], JObj [(''b'', JInt 2)]]),
                            (''kwargs'', JObj [])]]] 42) bot7) \<and>
   rpcs (new_events bot7
      (snd (bulk_write (scripted (script [ok (JList [JBool True, JBool True])])) TASK_MODEL
              [(1, [(''a'', JInt 1)]), (2, [(''b'', JInt 2)])] bot7))) =
     [envelope OBJECT ''execute''
              [JStr ''my'', JInt 7, JStr ''secret'',
               JList [JObj [(''model'', JStr TASK_MODEL), (''method'', JStr ''write''),
                            (''args'', JList [JList [JInt 1], JObj [(''a'', JInt 1)]]),
                            (''kwargs'', JObj [])],
                      JObj [(''model'', JStr TASK_MODEL), (''method'', JStr ''write''),
                            (''args'', JList [JList [JInt 2], JObj [(''b'', JInt 2)]]),
                            (''kwargs'', JObj [])]]] 42]"
  using bulk_write_one_round_trip[of bot7 TASK_MODEL
          "[(1, [(''a'', JInt 1)]), (2, [(''b'', JInt 2)])]"
          "scripted (script [ok (JList [JBool True, JBool True])])"]
  by (simp add: Let_def script_def batch_request_def write_call_def request_id_def scripted_def)

section \<open>Pagination\<close>

lemma search_read_answered:
  assumes "uid c \<noteq> JNull" and "answers E (nposts c) (JList records)"
  shows "search_read E model domain fields' offset limit order c =
           (Inr records,
            sent (search_read_request c model domain fields' offset limit order
                    (request_id E (nrand c))) c)"
  by (simp add: search_read_def execute_kw_answered[OF assms] search_read_request_def
        next_id_request_id)

lemma search_read_request_sent [simp]:
  "search_read_request (sent p c) = search_read_request c"
  by (simp add: search_read_request_def execute_kw_request_def fun_eq_iff)

lemma paging:
  assumes "uid c \<noteq> JNull" and "pages \<noteq> []"
    and "\<forall>i < length pages. answers E (nposts c + i) (JList (pages ! i))"
    and "\<forall>page \<in> set (butlast pages). page \<noteq> []" and "last pages = []"
    and "length pages \<le> fuel"
  shows "\<exists>c' evs.
           iter_search_read_from fuel E model domain batch fields' order offset c =
             ((concat pages, Finished), c') \<and>
           trace c' = trace c @ evs \<and>
           attempts evs =
             map (\<lambda>(k, off). search_read_request c model domain fields' off (Some batch) order
                                (request_id E k))
                 (zip [nrand c ..< nrand c + length pages] (offsets offset pages)) \<and>
           rpcs evs = attempts evs"
  using assms
proof (induction pages arbitrary: c offset fuel)
  case Nil
  then show ?case by simp
next
  case (Cons page pages)
  obtain fuel' where fuel: "fuel = Suc fuel'" and fuel': "length pages \<le> fuel'"
    using Cons.prems(6) by (cases fuel) auto
  let ?p = "search_read_request c model domain fields' offset (Some batch) order
              (request_id E (nrand c))"
  have first: "answers E (nposts c) (JList page)"
    using Cons.prems(3) by force
  have step: "search_read E model domain fields' offset (Some batch) order c =
      (Inr page, sent ?p c)"
    using search_read_answered[OF Cons.prems(1) first] .
  show ?case
  proof (cases "pages = []")
    case True
    then have "page = []" using Cons.prems(5) by simp
    then show ?thesis
      using True step by (simp add: fuel upt_conv_Cons)
  next
    case False
    then have ne: "page \<noteq> []" using Cons.prems(4) by simp
    have "\<exists>c' evs.
           iter_search_read_from fuel' E model domain batch fields' order
               (offset + int (length page)) (sent ?p c) =
             ((concat pages, Finished), c') \<and>
           trace c' = trace (sent ?p c) @ evs \<and>
           attempts evs =
             map (\<lambda>(k, off). search_read_request (sent ?p c) model domain fields' off (Some batch)
                                order (request_id E k))
                 (zip [nrand (sent ?p c) ..< nrand (sent ?p c) + length pages]
                      (offsets (offset + int (length page)) pages)) \<and>
           rpcs evs = attempts evs"
    proof (rule Cons.IH)
      show "uid (sent ?p c) \<noteq> JNull" using Cons.prems(1) by simp
      show "pages \<noteq> []" by (rule False)
      show "\<forall>i<length pages. answers E (nposts (sent ?p c) + i) (JList (pages ! i))"
        using Cons.prems(3) by force
      show "\<forall>page\<in>set (butlast pages). page \<noteq> []"
        using Cons.prems(4) False by simp
      show "last pages = []" using Cons.prems(5) False by simp
      show "length pages \<le> fuel'" by (rule fuel')
    qed
    then obtain c' evs where
      r: "iter_search_read_from fuel' E model domain batch fields' order
               (offset + int (length page)) (sent ?p c) = ((concat pages, Finished), c')"
      and t: "trace c' = trace (sent ?p c) @ evs"
      and a: "attempts evs =
             map (\<lambda>(k, off). search_read_request c model domain fields' off (Some batch)
                                order (request_id E k))
                 (zip [Suc (nrand c) ..< Suc (nrand c) + length pages]
                      (offsets (offset + int (length page)) pages))"
      and q: "rpcs evs = attempts evs"
      by (auto simp del: upt_Suc)
    have "iter_search_read_from fuel E model domain batch fields' order offset c =
        ((concat (page # pages), Finished), c')"
      using step ne r by (simp add: fuel)
    moreover have "trace c' = trace c @ ([Logged DEBUG (Rpc_out ?p), Posted ?p] @ evs)"
      using t by simp
    moreover have "attempts ([Logged DEBUG (Rpc_out ?p), Posted ?p] @ evs) =
        map (\<lambda>(k, off). search_read_request c model domain fields' off (Some batch) order
                                (request_id E k))
            (zip [nrand c ..< nrand c + length (page # pages)] (offsets offset (page # pages)))"
      using a by (simp add: upt_conv_Cons del: upt_Suc)
    moreover have "rpcs ([Logged DEBUG (Rpc_out ?p), Posted ?p] @ evs) =
        attempts ([Logged DEBUG (Rpc_out ?p), Posted ?p] @ evs)"
      using q by simp
    ultimately show ?thesis by blast
  qed
qed

lemma length_offsets [simp]: "length (offsets off pages) = length pages"
  by (induction pages arbitrary: off) simp_all

lemma iter_search_read_requests:
  assumes "uid c \<noteq> JNull" and "pages \<noteq> []"
    and "\<forall>i < length pages. answers E (nposts c + i) (JList (pages ! i))"
    and "\<forall>page \<in> set (butlast pages). page \<noteq> []" and "last pages = []"
    and "length pages \<le> fuel"
  shows "fst (iter_search_read fuel E model domain batch fields' order c) =
           (concat pages, Finished) \<and>
         attempts (new_events c (snd (iter_search_read fuel E model domain batch fields' order c))) =
           map (\<lambda>(k, off). search_read_request c model domain fields' off (Some batch) order
                              (request_id E k))
               (zip [nrand c ..< nrand c + length pages] (offsets 0 pages)) \<and>
         rpcs (new_events c (snd (iter_search_read fuel E model domain batch fields' order c))) =
           attempts (new_events c (snd (iter_search_read fuel E model domain batch fields' order c))) \<and>
         length (attempts (new_events c
                   (snd (iter_search_read fuel E model domain batch fields' order c)))) =
           length pages"
proof -
  obtain c' evs where
    r: "iter_search_read_from fuel E model domain batch fields' order 0 c =
          ((concat pages, Finished), c')"
    and t: "trace c' = trace c @ evs"
    and a: "attempts evs =
             map (\<lambda>(k, off). search_read_request c model domain fields' off (Some batch) order
                                (request_id E k))
                 (zip [nrand c ..< nrand c + length pages] (offsets 0 pages))"
    and q: "rpcs evs = attempts evs"
    using paging[OF assms, of model domain batch fields' order 0] by blast
  have n: "new_events c (snd (iter_search_read fuel E model domain batch fields' order c)) = evs"
    by (simp add: iter_search_read_def r t)
  show ?thesis
    unfolding n by (simp add: iter_search_read_def r a q)
qed

text \<open>The request of \<^verbatim>\<open>search_read\<close> with a limit, written out, and the offset read back from it.\<close>

lemma search_read_request_posted:
  "search_read_request c model domain fields' off (Some batch) order ident =
     JObj [(''jsonrpc'', JStr ''2.0''),
      (''method'', JStr ''call''),
      (''params'',
       JObj [(''service'', JStr ''object''),
             (''method'', JStr ''execute_kw''),
             (''args'',
              JList [JStr (db c), uid c, JStr (api_key c), JStr model,
                     JStr ''search_read'',
                     JList [JList (case domain of None \<Rightarrow> [] | Some filt \<Rightarrow> filt)],
                     JObj ((case fields' of None \<Rightarrow> []
                            | Some fs \<Rightarrow> [(''fields'', JList (map JStr fs))]) @
                           (if off = 0 then [] else [(''offset'', JInt off)]) @
                           [(''limit'', JInt batch)] @
                           (case order of None \<Rightarrow> []
                            | Some s \<Rightarrow> if s = [] then []
                                       else [(''order'', JStr s)]))])]),
      (''id'', JInt ident)]"
  by (simp add: search_read_request_def execute_kw_request_def envelope_def search_read_opts_def
        or_empty_def Let_def split: option.splits)

lemma posted_offset_search_read:
  "posted_offset (search_read_request c model domain fields' off (Some batch) order ident) = off"
  unfolding search_read_request_posted
  by (simp add: posted_offset_def kwargs_of_def args_of_def jget_def split: option.splits)

text \<open>
  C5. Let the remote answer the successive round trips of an authenticated client with
  the pages \<open>pages\<close>, all non-empty but the last, which is empty. Then the generator,
  consumed to its end with enough fuel, yields the concatenation of the pages and stops.
  It posts one request per page, the empty one included, each a \<^verbatim>\<open>search_read\<close> call
  whose keyword arguments are the fields (if given), the offset, the limit and the order
  (if given); the offset of each request, read back from the posted payload, is the
  number of records of the pages before it. The offset 0 of the first request is posted
  as a missing \<^verbatim>\<open>offset\<close> key, since \<^verbatim>\<open>search_read\<close> leaves the key out when the offset is 0.
\<close>

theorem iter_search_read_pages:
  assumes "uid c \<noteq> JNull" and "pages \<noteq> []"
    and "\<forall>i < length pages. answers E (nposts c + i) (JList (pages ! i))"
    and "\<forall>page \<in> set (butlast pages). page \<noteq> []" and "last pages = []"
    and "length pages \<le> fuel"
  shows "fst (iter_search_read fuel E model domain batch fields' order c) =
           (concat pages, Finished) \<and>
         attempts (new_events c (snd (iter_search_read fuel E model domain batch fields' order c))) =
           map (\<lambda>(k, off).
                  JObj [(''jsonrpc'', JStr ''2.0''),
                        (''method'', JStr ''call''),
                        (''params'',
                         JObj [(''service'', JStr ''object''),
                               (''method'', JStr ''execute_kw''),
                               (''args'',
                                JList [JStr (db c), uid c, JStr (api_key c), JStr model,
                                       JStr ''search_read'',
                                       JList [JList (case domain of None \<Rightarrow> [] | Some filt \<Rightarrow> filt)],
                                       JObj ((case fields' of None \<Rightarrow> []
                                              | Some fs \<Rightarrow> [(''fields'', JList (map JStr fs))]) @
                                             (if off = 0 then [] else [(''offset'', JInt off)]) @
                                             [(''limit'', JInt batch)] @
                                             (case order of None \<Rightarrow> []
                                              | Some s \<Rightarrow> if s = [] then []
                                                         else [(''order'', JStr s)]))])]),
                        (''id'', JInt (request_id E k))])
               (zip [nrand c ..< nrand c + length pages] (offsets 0 pages)) \<and>
         map posted_offset
           (attempts (new_events c
              (snd (iter_search_read fuel E model domain batch fields' order c)))) =
           offsets 0 pages \<and>
         rpcs (new_events c (snd (iter_search_read fuel E model domain batch fields' order c))) =
           attempts (new_events c (snd (iter_search_read fuel E model domain batch fields' order c))) \<and>
         length (attempts (new_events c
                   (snd (iter_search_read fuel E model domain batch fields' order c)))) =
           length pages"
proof -
  let ?new = "new_events c (snd (iter_search_read fuel E model domain batch fields' order c))"
  let ?ks = "[nrand c ..< nrand c + length pages]"
  have r: "fst (iter_search_read fuel E model domain batch fields' order c) =
           (concat pages, Finished)"
    and a: "attempts ?new =
           map (\<lambda>(k, off). search_read_request c model domain fields' off (Some batch) order
                              (request_id E k))
               (zip ?ks (offsets 0 pages))"
    and q: "rpcs ?new = attempts ?new" and l: "length (attempts ?new) = length pages"
    using iter_search_read_requests[OF assms, of model domain batch fields' order] by simp_all
  have "map posted_offset
          (map (\<lambda>(k, off). search_read_request c model domain fields' off (Some batch) order
                              (request_id E k)) zs) = map snd zs" for zs
    by (induction zs) (auto simp: posted_offset_search_read)
  then have o: "map posted_offset (attempts ?new) = map snd (zip ?ks (offsets 0 pages))"
    unfolding a .
  have z: "map snd (zip ?ks (offsets 0 pages)) = offsets 0 pages"
    by (rule map_snd_zip) simp
  have o': "map posted_offset (attempts ?new) = offsets 0 pages"
    unfolding o z ..
  show ?thesis
    using r q l o' unfolding a search_read_request_posted by simp
qed

theorem iter_search_read_pages_witness:
  "length (fst (fst (iter_search_read 4
      (scripted (script (map (\<lambda>page. ok (JList page))
         [replicate 100 (JObj [(''id'', JInt 1)]), replicate 100 (JObj [(''id'', JInt 1)]),
          replicate 37 (JObj [(''id'', JInt 1)]), []])))
      TASK_MODEL None 100 None None bot7))) = 237 \<and>
   snd (fst (iter_search_read 4
      (scripted (script (map (\<lambda>page. ok (JList page))
         [replicate 100 (JObj [(''id'', JInt 1)]), replicate 100 (JObj [(''id'', JInt 1)]),
          replicate 37 (JObj [(''id'', JInt 1)]), []])))
      TASK_MODEL None 100 None None bot7)) = Finished \<and>
   map (\<lambda>p. (kwargs_of p, jget ''id'' p))
     (attempts (new_events bot7 (snd (iter_search_read 4
        (scripted (script (map (\<lambda>page. ok (JList page))
           [replicate 100 (JObj [(''id'', JInt 1)]), replicate 100 (JObj [(''id'', JInt 1)]),
            replicate 37 (JObj [(''id'', JInt 1)]), []])))
        TASK_MODEL None 100 None None bot7)))) =
     [(JObj [(''limit'', JInt 100)], JInt 42),
      (JObj [(''offset'', JInt 100), (''limit'', JInt 100)], JInt 43),
      (JObj [(''offset'', JInt 200), (''limit'', JInt 100)], JInt 44),
      (JObj [(''offset'', JInt 237), (''limit'', JInt 100)], JInt 45)] \<and>
   map posted_offset
     (attempts (new_events bot7 (snd (iter_search_read 4
        (scripted (script (map (\<lambda>page. ok (JList page))
           [replicate 100 (JObj [(''id'', JInt 1)]), replicate 100 (JObj [(''id'', JInt 1)]),
            replicate 37 (JObj [(''id'', JInt 1)]), []])))
        TASK_MODEL None 100 None None bot7)))) = [0, 100, 200, 237]"
proof -
  let ?pages = "[replicate 100 (JObj [(''id'', JInt 1)]), replicate 100 (JObj [(''id'', JInt 1)]),
          replicate 37 (JObj [(''id'', JInt 1)]), []]"
  let ?E = "scripted (script (map (\<lambda>page. ok (JList page)) ?pages))"
  have h: "\<forall>i < length ?pages. answers ?E (nposts bot7 + i) (JList (?pages ! i))"
  proof (intro allI impI)
    fix i assume "i < length ?pages"
    then have "i = 0 \<or> i = 1 \<or> i = 2 \<or> i = 3" by auto
    then show "answers ?E (nposts bot7 + i) (JList (?pages ! i))"
      by (auto simp: script_def)
  qed
  show ?thesis
    using iter_search_read_pages[of bot7 ?pages ?E 4 TASK_MODEL None 100 None None] h
    by (simp add: upt_conv_Cons kwargs_of_def args_of_def jget_def posted_offset_def del: upt_Suc)
qed

section \<open>Moving a task\<close>

lemma update_task_answered:
  assumes "uid c \<noteq> JNull" and "answers E (nposts c) r"
  shows "update_task E task_id vals c =
           (Inr (truthy r), sent (write_task_request c task_id vals (request_id E (nrand c))) c)"
  by (simp add: update_task_def update_def execute_kw_answered[OF assms] write_task_request_def
        next_id_request_id)

lemma update_task_rpcs:
  assumes "uid c \<noteq> JNull"
  obtains k evs where "snd (update_task E task_id vals c) = moved k evs c"
    and "rpcs evs = [write_task_request c task_id vals (request_id E (nrand c))]"
proof -
  obtain k evs where
    "snd (execute_kw E TASK_MODEL ''write'' [JList [JInt task_id], JObj vals] [] c) = moved k evs c"
    and "rpcs evs = [execute_kw_request c TASK_MODEL ''write'' [JList [JInt task_id], JObj vals] []
                       (next_id E c)]"
    using assms by (rule execute_kw_cached)
  then show ?thesis
    by (intro that[of k evs])
       (simp_all add: update_task_def facade_states write_task_request_def next_id_request_id)
qed

lemma selection_labels_answered:
  assumes "uid c \<noteq> JNull" and "answers E (nposts c) meta"
  shows "selection_labels E TASK_MODEL ''state'' c =
           (case subscript meta ''state'' of
              Inl exc \<Rightarrow> Inl exc
            | Inr info \<Rightarrow>
                (case subscript info ''selection'' of
                   Inl exc \<Rightarrow> Inl exc
                 | Inr sel \<Rightarrow> py_dict sel),
            sent (metadata_request c (request_id E (nrand c))) c)"
  by (simp add: selection_labels_def fields_get_def or_empty_def execute_kw_answered[OF assms]
        metadata_request_def next_id_request_id split: sum.splits)

lemma first_code_find:
  assumes "\<forall>entry \<in> set d. is_str (snd entry)"
  shows "first_code E state_label d =
           (case find (label_matches E state_label) d of
              Some entry \<Rightarrow> Inr (fst entry)
            | None \<Rightarrow> Inl StopIteration)"
  using assms
  by (induction d) (auto simp: label_matches_def is_str_def split: json.splits)

text \<open>Without a label, or with the empty one, the metadata is not fetched.\<close>

lemma move_task_without_label:
  "move_task E task_id stage_id None c = update_task E task_id [(''stage_id'', JInt stage_id)] c"
  "move_task E task_id stage_id (Some []) c =
     update_task E task_id [(''stage_id'', JInt stage_id)] c"
  by (simp_all add: move_task_def)

text \<open>
  C6. \<^verbatim>\<open>move_task\<close> with a supplied (non-empty) label, on an authenticated client whose
  metadata call is answered with the object \<open>meta\<close>, makes two round trips: the metadata
  call and one update. If \<open>meta\<close> has no \<^verbatim>\<open>state\<close> field, or that field has no
  \<^verbatim>\<open>selection\<close>, or no label of the selection matches, a warning is logged and the update
  carries the stage only. If a label of the selection (the mapping from codes to labels
  that \<^verbatim>\<open>dict\<close> builds) matches case-insensitively, the update carries the stage and the
  first matching code, and nothing is logged. In every case the outcome of \<^verbatim>\<open>move_task\<close>
  is the outcome of that update.
\<close>

theorem move_task_state_label:
  fixes E c task_id stage_id label meta info sel d
  defines "c1 \<equiv> sent (metadata_request c (request_id E (nrand c))) c"
    and "stage_only \<equiv> [(''stage_id'', JInt stage_id)]"
  defines "degraded \<equiv>
      move_task E task_id stage_id (Some label) c =
        update_task E task_id stage_only (emit [Logged WARNING (State_label_not_found label)] c1) \<and>
      rpcs (new_events c (snd (move_task E task_id stage_id (Some label) c))) =
        [metadata_request c (request_id E (nrand c)),
         write_task_request c task_id stage_only (request_id E (Suc (nrand c)))]"
  assumes "label \<noteq> []" and "uid c \<noteq> JNull" and "answers E (nposts c) (JObj meta)"
  shows "(map_of meta ''state'' = None \<or>
          map_of meta ''state'' = Some (JObj info) \<and> map_of info ''selection'' = None
            \<longrightarrow> degraded) \<and>
         (map_of meta ''state'' = Some (JObj info) \<and> map_of info ''selection'' = Some sel \<and>
          py_dict sel = Inr d \<and> (\<forall>entry \<in> set d. is_str (snd entry)) \<longrightarrow>
            (case find (label_matches E label) d of
               None \<Rightarrow> degraded
             | Some entry \<Rightarrow>
                 move_task E task_id stage_id (Some label) c =
                   update_task E task_id (stage_only @ [(''state'', fst entry)]) c1 \<and>
                 rpcs (new_events c (snd (move_task E task_id stage_id (Some label) c))) =
                   [metadata_request c (request_id E (nrand c)),
                    write_task_request c task_id (stage_only @ [(''state'', fst entry)])
                      (request_id E (Suc (nrand c)))]))"
proof -
  let ?w = "emit [Logged WARNING (State_label_not_found label)] c1"
  have sl: "selection_labels E TASK_MODEL ''state'' c =
           (case subscript (JObj meta) ''state'' of
              Inl exc \<Rightarrow> Inl exc
            | Inr info \<Rightarrow>
                (case subscript info ''selection'' of
                   Inl exc \<Rightarrow> Inl exc
                 | Inr sel \<Rightarrow> py_dict sel), c1)"
    unfolding c1_def using assms(5,6) by (rule selection_labels_answered)
  have f1: "trace c1 = trace c @ [Logged DEBUG (Rpc_out (metadata_request c (request_id E (nrand c)))),
                                  Posted (metadata_request c (request_id E (nrand c)))]"
    "nrand c1 = Suc (nrand c)" "uid c1 = uid c"
    by (simp_all add: c1_def)
  have w1: "write_task_request c1 = write_task_request c"
    by (simp add: write_task_request_def execute_kw_request_def c1_def fun_eq_iff)
  have w2: "write_task_request ?w = write_task_request c"
    by (simp add: write_task_request_def execute_kw_request_def c1_def fun_eq_iff)
  have rp1: "rpcs (new_events c (snd (update_task E task_id vals c1))) =
        [metadata_request c (request_id E (nrand c)),
         write_task_request c task_id vals (request_id E (Suc (nrand c)))]" for vals
  proof -
    have u: "uid c1 \<noteq> JNull" using assms(5) by (simp add: f1)
    obtain k evs where s: "snd (update_task E task_id vals c1) = moved k evs c1"
      and q: "rpcs evs = [write_task_request c1 task_id vals (request_id E (nrand c1))]"
      using u by (rule update_task_rpcs)
    show ?thesis
      by (simp add: s q w1 f1 new_events_def)
  qed
  have rp2: "rpcs (new_events c (snd (update_task E task_id vals ?w))) =
        [metadata_request c (request_id E (nrand c)),
         write_task_request c task_id vals (request_id E (Suc (nrand c)))]" for vals
  proof -
    have u: "uid ?w \<noteq> JNull" using assms(5) by (simp add: f1)
    obtain k evs where s: "snd (update_task E task_id vals ?w) = moved k evs ?w"
      and q: "rpcs evs = [write_task_request ?w task_id vals (request_id E (nrand ?w))]"
      using u by (rule update_task_rpcs)
    show ?thesis
      by (simp add: s q w2 f1 new_events_def)
  qed
  have deg: degraded if "lookup_state E label c = (Inl KeyError, c1) \<or>
      lookup_state E label c = (Inl StopIteration, c1)"
    unfolding degraded_def
  proof
    show m: "move_task E task_id stage_id (Some label) c = update_task E task_id stage_only ?w"
      using that assms(4) by (auto simp: move_task_def stage_only_def)
    show "rpcs (new_events c (snd (move_task E task_id stage_id (Some label) c))) =
        [metadata_request c (request_id E (nrand c)),
         write_task_request c task_id stage_only (request_id E (Suc (nrand c)))]"
      unfolding m by (rule rp2)
  qed
  have absent: degraded
    if "map_of meta ''state'' = None \<or>
        map_of meta ''state'' = Some (JObj info) \<and> map_of info ''selection'' = None"
  proof (rule deg)
    from that have "lookup_state E label c = (Inl KeyError, c1)"
      by (auto simp: lookup_state_def sl)
    then show "lookup_state E label c = (Inl KeyError, c1) \<or>
      lookup_state E label c = (Inl StopIteration, c1)" ..
  qed
  have present: "case find (label_matches E label) d of
               None \<Rightarrow> degraded
             | Some entry \<Rightarrow>
                 move_task E task_id stage_id (Some label) c =
                   update_task E task_id (stage_only @ [(''state'', fst entry)]) c1 \<and>
                 rpcs (new_events c (snd (move_task E task_id stage_id (Some label) c))) =
                   [metadata_request c (request_id E (nrand c)),
                    write_task_request c task_id (stage_only @ [(''state'', fst entry)])
                      (request_id E (Suc (nrand c)))]"
    if h: "map_of meta ''state'' = Some (JObj info) \<and> map_of info ''selection'' = Some sel \<and>
          py_dict sel = Inr d \<and> (\<forall>entry \<in> set d. is_str (snd entry))"
  proof -
    from h have l: "lookup_state E label c =
        (case find (label_matches E label) d of
              Some entry \<Rightarrow> Inr (fst entry)
            | None \<Rightarrow> Inl StopIteration, c1)"
      by (simp add: lookup_state_def sl first_code_find)
    show ?thesis
    proof (cases "find (label_matches E label) d")
      case None
      then have "lookup_state E label c = (Inl StopIteration, c1)" using l by simp
      then have degraded by (intro deg) simp
      then show ?thesis using None by simp
    next
      case (Some entry)
      then have l': "lookup_state E label c = (Inr (fst entry), c1)" using l by simp
      have m: "move_task E task_id stage_id (Some label) c =
          update_task E task_id (stage_only @ [(''state'', fst entry)]) c1"
        using assms(4) by (simp add: move_task_def l' stage_only_def)
      have "rpcs (new_events c (snd (move_task E task_id stage_id (Some label) c))) =
          [metadata_request c (request_id E (nrand c)),
           write_task_request c task_id (stage_only @ [(''state'', fst entry)])
             (request_id E (Suc (nrand c)))]"
        unfolding m by (rule rp1)
      then show ?thesis using Some m by simp
    qed
  qed
  show ?thesis using absent present by blast
qed

lemma request_frames [simp]:
  "execute_kw_request (sent p c) = execute_kw_request c"
  "execute_kw_request (emit evs c) = execute_kw_request c"
  "write_task_request (sent p c) = write_task_request c"
  "write_task_request (emit evs c) = write_task_request c"
  by (simp_all add: execute_kw_request_def write_task_request_def fun_eq_iff)

lemma lower_scripted [simp]: "lower (scripted w) = lower_ascii"
  by (simp add: scripted_def)

theorem move_task_state_label_witness:
  "move_task
     (scripted (script
        [ok (JObj [(''state'', JObj [(''selection'',
               JList [JList [JStr ''01_in_progress'', JStr ''In Progress''],
                      JList [JStr ''1_done'', JStr ''Done'']])])]),
         ok (JBool True)]))
     5 3 (Some ''done'') bot7 =
     (Inr True,
      sent (write_task_request bot7 5 [(''stage_id'', JInt 3), (''state'', JStr ''1_done'')] 43)
        (sent (metadata_request bot7 42) bot7)) \<and>
   move_task
     (scripted (script
        [ok (JObj [(''state'', JObj [(''selection'',
               JList [JList [JStr ''01_in_progress'', JStr ''In Progress''],
                      JList [JStr ''1_done'', JStr ''Done'']])])]),
         ok (JBool True)]))
     5 3 (Some ''Blocked'') bot7 =
     (Inr True,
      sent (write_task_request bot7 5 [(''stage_id'', JInt 3)] 43)
        (emit [Logged WARNING (State_label_not_found ''Blocked'')]
           (sent (metadata_request bot7 42) bot7))) \<and>
   move_task (scripted (script [ok (JObj [(''name'', JObj [])]), ok (JBool True)]))
     5 3 (Some ''Done'') bot7 =
     (Inr True,
      sent (write_task_request bot7 5 [(''stage_id'', JInt 3)] 43)
        (emit [Logged WARNING (State_label_not_found ''Done'')]
           (sent (metadata_request bot7 42) bot7)))"
proof -
  let ?sel = "JList [JList [JStr ''01_in_progress'', JStr ''In Progress''],
                     JList [JStr ''1_done'', JStr ''Done'']]"
  let ?info = "[(''selection'', ?sel)]"
  let ?meta = "[(''state'', JObj ?info)]"
  let ?d = "[(JStr ''01_in_progress'', JStr ''In Progress''), (JStr ''1_done'', JStr ''Done'')]"
  let ?E = "scripted (script [ok (JObj ?meta), ok (JBool True)])"
  let ?F = "scripted (script [ok (JObj [(''name'', JObj [])]), ok (JBool True)])"
  have d: "py_dict ?sel = Inr ?d"
    by (simp add: py_dict_def)
  have u: "update_task ?E 5 vals c' =
      (Inr True, sent (write_task_request c' 5 vals (request_id ?E (nrand c'))) c')"
    if "uid c' \<noteq> JNull" "nposts c' = 1" for vals c'
    using update_task_answered[of c' ?E "JBool True" 5 vals] that by (simp add: script_def)
  have v: "update_task ?F 5 vals c' =
      (Inr True, sent (write_task_request c' 5 vals (request_id ?F (nrand c'))) c')"
    if "uid c' \<noteq> JNull" "nposts c' = 1" for vals c'
    using update_task_answered[of c' ?F "JBool True" 5 vals] that by (simp add: script_def)
  show ?thesis
    using move_task_state_label[where E = ?E and c = bot7 and task_id = 5 and stage_id = 3
            and label = "''done''" and meta = ?meta and info = ?info and sel = ?sel and d = ?d]
          move_task_state_label[where E = ?E and c = bot7 and task_id = 5 and stage_id = 3
            and label = "''Blocked''" and meta = ?meta and info = ?info and sel = ?sel and d = ?d]
          move_task_state_label[where E = ?F and c = bot7 and task_id = 5 and stage_id = 3
            and label = "''Done''" and meta = "[(''name'', JObj [])]"]
    by (simp add: d u v script_def is_str_def label_matches_def lower_ascii_def)
qed

text \<open>
  The mapping that \<^verbatim>\<open>dict\<close> builds from a selection given, as the remote service does, as
  a list of pairs of a code and a label with distinct codes: the pairs in their order.
\<close>

lemma dict_set_new:
  "k \<notin> fst ` set qs \<Longrightarrow>
   dict_set (JStr k) v (map (\<lambda>kv. (JStr (fst kv), JStr (snd kv))) qs) =
     map (\<lambda>kv. (JStr (fst kv), JStr (snd kv))) qs @ [(JStr k, v)]"
  by (induction qs) auto

lemma dict_update_seq_pairs:
  "distinct (map fst (qs @ ps)) \<Longrightarrow>
   dict_update_seq (map (\<lambda>kv. JList [JStr (fst kv), JStr (snd kv)]) ps)
       (map (\<lambda>kv. (JStr (fst kv), JStr (snd kv))) qs) =
     Inr (map (\<lambda>kv. (JStr (fst kv), JStr (snd kv))) (qs @ ps))"
proof (induction ps arbitrary: qs)
  case Nil
  then show ?case by simp
next
  case (Cons p ps)
  have "fst p \<notin> fst ` set qs" using Cons.prems by auto
  then have "dict_set (JStr (fst p)) (JStr (snd p)) (map (\<lambda>kv. (JStr (fst kv), JStr (snd kv))) qs) =
      map (\<lambda>kv. (JStr (fst kv), JStr (snd kv))) (qs @ [p])"
    by (simp add: dict_set_new)
  moreover have "distinct (map fst ((qs @ [p]) @ ps))" using Cons.prems by simp
  ultimately show ?case
    using Cons.IH[of "qs @ [p]"] by simp
qed

lemma py_dict_selection:
  assumes "distinct (map fst pairs)"
  shows "py_dict (JList (map (\<lambda>kv. JList [JStr (fst kv), JStr (snd kv)]) pairs)) =
           Inr (map (\<lambda>kv. (JStr (fst kv), JStr (snd kv))) pairs)"
    and "\<forall>entry \<in> set (map (\<lambda>kv. (JStr (fst kv), JStr (snd kv))) pairs). is_str (snd entry)"
  using dict_update_seq_pairs[of "[]" pairs] assms
  by (simp_all add: py_dict_def is_str_def)

section \<open>Life cycle\<close>

lemma enter_rpcs:
  "rpcs (new_events c (snd (enter E c))) = [authenticate_request c (request_id E (nrand c))]"
proof -
  obtain k evs where c: "(\<exists>exc. authenticate E c = (Inl exc, moved k evs c)) \<or>
     (\<exists>u. isinstance_int u \<and>
          authenticate E c =
            (Inr u, emit [Logged INFO (Authenticated u)] ((moved k evs c)\<lparr>uid := u\<rparr>)))"
    and q: "rpcs evs = [authenticate_request c (next_id E c)]"
    by (rule authenticate_cases)
  from c show ?thesis
    by (auto simp: enter_def q next_id_request_id)
qed

text \<open>
  C9, as the claim states it, fails: a \<^verbatim>\<open>with\<close> block whose body does nothing has posted
  the authentication call, since \<^verbatim>\<open>__enter__\<close> authenticates before any use, and the
  connection pool is still open after the block.
\<close>

theorem with_client_counterexample:
  "attempts (trace (snd (with_client (scripted (script [ok (JInt 7)])) bot idle))) =
     [envelope COMMON ''authenticate''
        [JStr ''my'', JStr ''bot@example.com'', JStr ''secret'', JObj []] 42] \<and>
   sess_open (snd (with_client (scripted (script [ok (JInt 7)])) bot idle))"
proof -
  have "answers (scripted (script [ok (JInt 7)])) (nposts bot) (JInt 7)"
    by (simp add: script_def)
  from authenticate_answered[OF this] show ?thesis
    by (simp add: with_client_def enter_def exit_def authenticate_request_def idle_def)
qed

text \<open>
  C9, amended. Construction makes no remote call and leaves the uid absent. Entering the
  scope makes one authentication round trip at once, whatever the cached uid, and the
  body runs only if it succeeded. Leaving the scope changes nothing: the connection pool
  is not released and no call is made, so the state after the block is the state after
  the body.
\<close>

theorem with_client_life_cycle:
  "trace (OdooClient url' db' username' api_key' timeout' verify_ssl') = [] \<and>
   uid (OdooClient url' db' username' api_key' timeout' verify_ssl') = JNull \<and>
   sess_open (OdooClient url' db' username' api_key' timeout' verify_ssl') \<and>
   rpcs (new_events c (snd (enter E c))) = [authenticate_request c (request_id E (nrand c))] \<and>
   exit c = c \<and>
   with_client E c body =
     (case authenticate E c of
        (Inl exc, c1) \<Rightarrow> (Inl exc, c1)
      | (Inr u, c1) \<Rightarrow> body c1)"
proof -
  have made: "trace (OdooClient url' db' username' api_key' timeout' verify_ssl') = [] \<and>
      uid (OdooClient url' db' username' api_key' timeout' verify_ssl') = JNull \<and>
      sess_open (OdooClient url' db' username' api_key' timeout' verify_ssl')"
    by (simp add: OdooClient_def)
  have block: "with_client E c body =
     (case authenticate E c of
        (Inl exc, c1) \<Rightarrow> (Inl exc, c1)
      | (Inr u, c1) \<Rightarrow> body c1)"
    by (simp add: with_client_def enter_def exit_def split: prod.splits sum.splits)
  have left: "exit c = c" by (simp add: exit_def)
  show ?thesis
    using made enter_rpcs[of c E] left block by blast
qed

section \<open>Creating a subtask\<close>

text \<open>
  C10. \<^verbatim>\<open>create_subtask\<close> leaves the dict it is given, and every other allocated dict, as
  it was: the parent reference is written into a fresh copy, and the creation call is
  the one of \<^verbatim>\<open>create_task\<close> on the entries of the argument with \<^verbatim>\<open>parent_id\<close> set.
\<close>

theorem create_subtask_preserves_argument:
  assumes "values < fresh h"
  shows "(case create_subtask E parent_id values (h, c) of
            (r, h', c') \<Rightarrow>
              cells h' values = cells h values \<and>
              (\<forall>a < fresh h. cells h' a = cells h a) \<and>
              (r, c') = create_task E (obj_set ''parent_id'' (JInt parent_id) (cells h values)) c)"
  using assms
  by (simp add: create_subtask_def dict_copy_def dict_setitem_def Let_def split: prod.splits)

theorem create_subtask_preserves_argument_witness:
  "cells (fst (snd (create_subtask (scripted (script [ok (JInt 12)])) 11 0
      (one_dict,
       bot7)))) 0 = [(''name'', JStr ''Write docs'')] \<and>
   snd (snd (create_subtask (scripted (script [ok (JInt 12)])) 11 0
      (one_dict,
       bot7))) =
     sent (execute_kw_request bot7 TASK_MODEL ''create''
             [JObj [(''name'', JStr ''Write docs''), (''parent_id'', JInt 11)]] [] 42) bot7"
proof -
  let ?E = "scripted (script [ok (JInt 12)])"
  have "answers ?E (nposts bot7) (JInt 12)" by (simp add: script_def)
  then have e: "execute_kw ?E TASK_MODEL ''create'' args [] bot7 =
      (Inr (JInt 12), sent (execute_kw_request bot7 TASK_MODEL ''create'' args [] 42) bot7)" for args
    using execute_kw_answered[of bot7 ?E "JInt 12" TASK_MODEL "''create''" args "[]"] by simp
  show ?thesis
    using create_subtask_preserves_argument[of 0
            one_dict
            ?E 11 bot7]
    by (simp add: create_task_def create_def e one_dict_def split: prod.splits)
qed

section \<open>Lazy login\<close>

text \<open>
  What holds of the login for every transport behaviour. An operation other than
  \<^verbatim>\<open>authenticate\<close> itself, on a client whose cached uid is truthy, makes one round trip,
  which is not an authentication, and leaves the uid as it is; so no sequence of such
  operations authenticates again.
\<close>

lemma perform_no_login:
  assumes "op \<noteq> Authenticate" and "truthy (uid c)"
  obtains k evs where "perform E op c = moved k evs c"
    and "filter is_authenticate (rpcs evs) = []" and "length (rpcs evs) = 1"
proof (cases "op = Version")
  case True
  obtain k evs r where "json_rpc E COMMON ''version'' [] c = (r, moved k evs c)"
    and "rpcs evs = [envelope COMMON ''version'' [] (next_id E c)]"
    using json_rpc_cases[of E COMMON "''version''" "[]" c] by metis
  then show ?thesis
    using True by (intro that[of k evs]) (simp_all add: version_def is_authenticate_def)
next
  case False
  obtain k evs p where "perform E op c = moved k evs c" and "rpcs evs = [p]"
    and "authenticated_call c p"
    using perform_cached[OF assms(1) False assms(2), of E] by metis
  then show ?thesis
    by (intro that[of k evs]) (simp_all add: is_authenticate_def authenticated_call_def)
qed

lemma no_login_while_truthy:
  assumes "Authenticate \<notin> set ops" and "truthy (uid c)"
  shows "\<exists>evs. trace (perform_all E ops c) = trace c @ evs \<and>
               filter is_authenticate (rpcs evs) = [] \<and> length (rpcs evs) = length ops \<and>
               uid (perform_all E ops c) = uid c"
  using assms
proof (induction ops arbitrary: c)
  case Nil
  then show ?case by simp
next
  case (Cons op ops)
  have "op \<noteq> Authenticate" using Cons.prems(1) by auto
  then obtain k evs where s: "perform E op c = moved k evs c"
    and f: "filter is_authenticate (rpcs evs) = []" and l: "length (rpcs evs) = 1"
    using Cons.prems(2) perform_no_login[of op c E] by metis
  have "\<exists>evs'. trace (perform_all E ops (moved k evs c)) = trace (moved k evs c) @ evs' \<and>
               filter is_authenticate (rpcs evs') = [] \<and> length (rpcs evs') = length ops \<and>
               uid (perform_all E ops (moved k evs c)) = uid (moved k evs c)"
    using Cons.prems by (intro Cons.IH) simp_all
  then obtain evs' where "trace (perform_all E ops (moved k evs c)) = trace c @ (evs @ evs')"
    and "filter is_authenticate (rpcs evs') = []" and "length (rpcs evs') = length ops"
    and "uid (perform_all E ops (moved k evs c)) = uid c"
    by auto
  then show ?case
    using f l by (intro exI[of _ "evs @ evs'"]) (simp add: s)
qed

text \<open>
  The round trips of \<^verbatim>\<open>execute_batch\<close>, for every transport behaviour: the batch alone
  when the cached uid is truthy; otherwise the authentication, followed by the batch
  exactly when the authentication returned.
\<close>

lemma execute_batch_round_trips:
  "rpcs (new_events c (snd (execute_batch E calls c))) =
     (if truthy (uid c) then [batch_request c calls (request_id E (nrand c))]
      else case fst (authenticate E c) of
             Inl exc \<Rightarrow> [authenticate_request c (request_id E (nrand c))]
           | Inr u \<Rightarrow> [authenticate_request c (request_id E (nrand c)),
                       batch_request (c\<lparr>uid := u\<rparr>) calls (request_id E (Suc (nrand c)))])"
proof (cases "truthy (uid c)")
  case True
  obtain k evs where "snd (execute_batch E calls c) = moved k evs c"
    and "rpcs evs = [envelope OBJECT ''execute''
           [JStr (db c), uid c, JStr (api_key c), JList calls] (next_id E c)]"
    using True by (rule execute_batch_cached)
  then show ?thesis
    using True by (simp add: batch_request_def next_id_request_id)
next
  case False
  obtain k evs where c: "(\<exists>exc. authenticate E c = (Inl exc, moved k evs c)) \<or>
     (\<exists>u. isinstance_int u \<and>
          authenticate E c =
            (Inr u, emit [Logged INFO (Authenticated u)] ((moved k evs c)\<lparr>uid := u\<rparr>)))"
    and q: "rpcs evs = [authenticate_request c (next_id E c)]"
    by (rule authenticate_cases)
  from c show ?thesis
  proof
    assume "\<exists>exc. authenticate E c = (Inl exc, moved k evs c)"
    then show ?thesis
      using False by (auto simp: execute_batch_def q next_id_request_id)
  next
    assume "\<exists>u. isinstance_int u \<and>
          authenticate E c =
            (Inr u, emit [Logged INFO (Authenticated u)] ((moved k evs c)\<lparr>uid := u\<rparr>))"
    then obtain u where u: "authenticate E c =
            (Inr u, emit [Logged INFO (Authenticated u)] ((moved k evs c)\<lparr>uid := u\<rparr>))" by blast
    define c1 where "c1 = emit [Logged INFO (Authenticated u)] ((moved k evs c)\<lparr>uid := u\<rparr>)"
    obtain k2 evs2 r where r: "json_rpc E OBJECT ''execute''
        [JStr (db c1), u, JStr (api_key c1), JList calls] c1 = (r, moved k2 evs2 c1)"
      and q2: "rpcs evs2 = [envelope OBJECT ''execute''
        [JStr (db c1), u, JStr (api_key c1), JList calls] (next_id E c1)]"
      using json_rpc_cases[of E OBJECT "''execute''" _ c1] by metis
    have s: "snd (execute_batch E calls c) = moved k2 evs2 c1"
      using False u r by (simp add: execute_batch_def c1_def)
    have t: "trace (moved k2 evs2 c1) = trace c @ (evs @ [Logged INFO (Authenticated u)] @ evs2)"
      by (simp add: c1_def)
    show ?thesis
      unfolding s new_events_append[OF t]
      using False
      by (simp add: u q q2 c1_def batch_request_def next_id_request_id)
  qed
qed

end
